theory Spec2Isabelle
  imports Complex_Main "HOL-Library.AList" "HOL-Library.Word"
begin

unbundle bit_operations_syntax

section \<open>The multi-curve fitting framework of \<^verbatim>\<open>model_fit.py\<close>\<close>

text \<open>
  The development embeds the parameter container, the packing codec, the residual
  function, the fit driver and the model registry of \<^verbatim>\<open>model_fit.py\<close>.

  Conventions of the embedding:
  \<^item> Python floats are modelled by \<^typ>\<open>real\<close>; rounding, infinities and NaN are not
    represented (in particular \<open>x / 0 = 0\<close> here, where numpy yields \<open>inf\<close> or \<open>nan\<close>).
  \<^item> A Python \<open>dict\<close> is an association list with distinct keys; \<open>d[k]\<close> is
    \<^const>\<open>map_of\<close> (absent key: \<open>KeyError\<close>) and \<open>d[k] = v\<close> is \<^const>\<open>AList.update\<close>.
    The order in which a dictionary is iterated is not the order of insertion: the
    repository is Python 2 code, where it is the order of the hash table's slots. Every
    function that builds a dictionary which is later iterated takes that order as a
    parameter \<open>ord\<close>, from the keys in insertion order to the keys in iteration order;
    the order of CPython 2.7 is \<open>cpython2_order\<close> below. The registry is only looked
    up, never iterated.
  \<^item> An exception is a value \<open>Inl e\<close> of a sum type.
  \<^item> \<open>Parameter\<close> objects are mutable and shared by reference, so they live in an
    explicit store: a list of objects, an address being an index. Allocation appends to
    the store. Attribute assignment \<open>obj.value = v\<close> is a list update of the store.
    The attributes of the container itself (\<open>curves\<close>, \<open>_fitted\<close>, \<open>_fixed\<close> and the
    dictionary's items) are passed as a value.
\<close>

subsection \<open>Exceptions\<close>

datatype error =
    Exception string
  | RuntimeError string
  | AssertionError
  | AttributeError string
  | KeyError string
  | IndexError
  | NameError string
  | ValueError string
  | TypeError string

subsection \<open>The model registry\<close>

text \<open>
  A class is its name and the list of its base classes; \<open>issubclass\<close> follows the bases
  transitively and is reflexive.
\<close>

datatype pyclass = PyClass string "pyclass list"

fun issubclass :: "pyclass \<Rightarrow> pyclass \<Rightarrow> bool" where
  "issubclass (PyClass n bs) c = (PyClass n bs = c \<or> (\<exists>b \<in> set bs. issubclass b c))"

definition object :: pyclass where
  "object = PyClass ''object'' []"

definition Model :: pyclass where
  "Model = PyClass ''Model'' [object]"

text \<open>
  \<^verbatim>\<open>
  models = {}
  def register_model(*names):
      def reg(cls):
          if not issubclass(cls, Model):
              raise Exception("Registering model that doesn't inherit from model")
          for n in names:
              models[n] = cls
          return cls
      return reg
  \<close>
  The global \<open>models\<close> is threaded through: \<open>reg\<close> returns its result (or the exception)
  together with the registry it leaves behind.
\<close>

type_synonym registry = "(string \<times> pyclass) list"

definition models :: registry where
  "models = []"

fun reg_loop :: "string list \<Rightarrow> pyclass \<Rightarrow> registry \<Rightarrow> registry" where
  "reg_loop [] cls ms = ms"
| "reg_loop (n # ns) cls ms = reg_loop ns cls (AList.update n cls ms)"

definition reg :: "string list \<Rightarrow> pyclass \<Rightarrow> registry \<Rightarrow> (error + pyclass) \<times> registry" where
  "reg names cls ms =
     (if \<not> issubclass cls Model
      then (Inl (Exception ''Registering model that doesn't inherit from model''), ms)
      else (Inr cls, reg_loop names cls ms))"

definition register_model :: "string list \<Rightarrow> pyclass \<Rightarrow> registry \<Rightarrow> (error + pyclass) \<times> registry" where
  "register_model names = reg names"

subsection \<open>The iteration order of a dictionary\<close>

text \<open>
  The items of a dictionary in iteration order, given the order \<open>ord\<close> of the
  interpreter and the items in insertion order.
\<close>

definition in_order :: "(string list \<Rightarrow> string list) \<Rightarrow> (string \<times> 'v) list \<Rightarrow> (string \<times> 'v) list" where
  "in_order ord d = List.map_filter (\<lambda>k. map_option (Pair k) (map_of d k)) (ord (map fst d))"

text \<open>What every interpreter guarantees: iteration visits each key once.\<close>

definition permutes :: "(string list \<Rightarrow> string list) \<Rightarrow> string list \<Rightarrow> bool" where
  "permutes ord ks = (distinct (ord ks) \<and> set (ord ks) = set ks)"

text \<open>
  The order of CPython 2.7 on a 64-bit platform, for string keys and a dictionary that
  only grows (\<^verbatim>\<open>Objects/stringobject.c\<close>, \<^verbatim>\<open>Objects/dictobject.c\<close>; hash randomisation
  is off by default). The hash of a string:
  \<^verbatim>\<open>
  x = *p << 7;
  while (--len >= 0) x = (1000003*x) ^ *p++;
  x ^= Py_SIZE(a);
  if (x == -1) x = -2;
  \<close>
  and the hash of the empty string is \<open>0\<close>.
\<close>

definition string_hash :: "string \<Rightarrow> 64 word" where
  "string_hash s =
     (case s of
        [] \<Rightarrow> 0
      | c # cs \<Rightarrow>
          (let x = fold (\<lambda>c x. (1000003 * x) XOR of_nat (of_char c)) s (push_bit 7 (of_nat (of_char c)));
               y = x XOR of_nat (length s)
           in if y = - 1 then - 2 else y))"

text \<open>
  The table is a list of slots, its length a power of two; a slot is empty or holds a
  key (the values play no part in the order). A key goes to slot \<open>hash & mask\<close>, and on a
  collision the probe sequence of \<open>lookdict_string\<close> is followed:
  \<^verbatim>\<open>
  for (perturb = hash; ; perturb >>= PERTURB_SHIFT) {
      i = (i << 2) + i + perturb + 1;
      ep = &ep0[i & mask];
      if (ep->me_key == NULL) return ep;
      if (ep->me_key == key || ...equal...) return ep;
  }
  \<close>
  The loop has no bound of its own, so it is a partial function.
\<close>

type_synonym pytable = "string option list"

partial_function (option) probe :: "pytable \<Rightarrow> string \<Rightarrow> 64 word \<Rightarrow> 64 word \<Rightarrow> nat option" where
  "probe t k i perturb =
     (let i' = push_bit 2 i + i + perturb + 1;
          j = unat (i' AND (of_nat (length t) - 1))
      in if t ! j = None \<or> t ! j = Some k then Some j
         else probe t k i' (drop_bit 5 perturb))"

declare probe.simps [code]

definition lookdict :: "pytable \<Rightarrow> string \<Rightarrow> nat option" where
  "lookdict t k =
     (let h = string_hash k;
          j = unat (h AND (of_nat (length t) - 1))
      in if t ! j = None \<or> t ! j = Some k then Some j
         else probe t k (h AND (of_nat (length t) - 1)) h)"

text \<open>The keys of a table in slot order: the iteration order.\<close>

definition active :: "pytable \<Rightarrow> string list" where
  "active t = List.map_filter id t"

text \<open>
  \<open>dictresize\<close>: the new size is the least power of two, from eight on, above
  \<open>minused\<close>; the keys are inserted afresh in slot order.
  \<^verbatim>\<open>
  for (newsize = PyDict_MINSIZE; newsize <= minused && newsize > 0; newsize <<= 1) ;
  \<close>
\<close>

function newsize :: "nat \<Rightarrow> nat \<Rightarrow> nat" where
  "newsize n minused = (if 0 < n \<and> n \<le> minused then newsize (2 * n) minused else n)"
  by pat_completeness auto
termination
  by (relation "measure (\<lambda>(n, minused). Suc minused - n)") auto

fun insert_all :: "string list \<Rightarrow> pytable \<Rightarrow> pytable option" where
  "insert_all [] t = Some t"
| "insert_all (k # ks) t =
     (case lookdict t k of
        None \<Rightarrow> None
      | Some j \<Rightarrow> insert_all ks (t[j := Some k]))"

definition dictresize :: "pytable \<Rightarrow> nat \<Rightarrow> pytable option" where
  "dictresize t minused = insert_all (active t) (replicate (newsize 8 minused) None)"

text \<open>
  \<open>PyDict_SetItem\<close>: a key that is present keeps its slot; a new key is stored, and the
  table is resized when it is then two thirds full.
  \<^verbatim>\<open>
  if (!(mp->ma_used > n_used && mp->ma_fill*3 >= (mp->ma_mask+1)*2)) return 0;
  return dictresize(mp, (mp->ma_used > 50000 ? 2 : 4) * mp->ma_used);
  \<close>
\<close>

definition setitem :: "pytable \<Rightarrow> string \<Rightarrow> pytable option" where
  "setitem t k =
     (case lookdict t k of
        None \<Rightarrow> None
      | Some j \<Rightarrow>
          if t ! j = Some k then Some t
          else (let t' = t[j := Some k]; used = length (active t')
                in if used * 3 \<ge> length t' * 2
                   then dictresize t' ((if used > 50000 then 2 else 4) * used)
                   else Some t'))"

fun setitems :: "string list \<Rightarrow> pytable \<Rightarrow> pytable option" where
  "setitems [] t = Some t"
| "setitems (k # ks) t = (case setitem t k of None \<Rightarrow> None | Some t' \<Rightarrow> setitems ks t')"

text \<open>
  A new dictionary has eight slots. Should a probe not return, the dictionary is never
  built; the order function then yields no key.
\<close>

definition cpython2_order :: "string list \<Rightarrow> string list" where
  "cpython2_order ks = (case setitems ks (replicate 8 None) of None \<Rightarrow> [] | Some t \<Rightarrow> active t)"

subsection \<open>Parameters and their instances\<close>

text \<open>
  The \<open>value\<close> slot of a parameter instance holds either one number or a Python list of
  numbers, one per curve; \<open>isinstance(v, list)\<close> is a case distinction on it. An absent value
  (\<open>None\<close>) is outside the model. A scope is a string or \<open>None\<close>.
\<close>

datatype pyvalue = Scalar real | PyList "real list"

record parameter =
  name :: string
  description :: string
  def_value :: pyvalue
  def_scope :: "string option"

text \<open>An instance is a copy of a \<open>Parameter\<close> with the attributes \<open>scope\<close> and \<open>value\<close> added.\<close>

record pinstance = parameter +
  scope :: "string option"
  "value" :: pyvalue

type_synonym addr = nat
type_synonym store = "pinstance list"

record curve =
  lag :: "real list"
  G :: "real list"
  var :: "real list"

text \<open>
  The container: the items of the dictionary in iteration order (parameter name to the
  address of the instance), the curves, and the two name lists that \<open>validate\<close>
  creates (absent before). Containers are objects too: they live in a store of their
  own, and a container is referred to by its address there.
\<close>

record Parameters =
  items :: "(string \<times> addr) list"
  curves :: "curve list"
  fitted :: "string list option"
  fixed :: "string list option"

type_synonym cstore = "Parameters list"

type_synonym cparams = "(string \<times> real) list"

record model =
  params :: "parameter list"
  call :: "cparams \<Rightarrow> real list \<Rightarrow> error + real list"

text \<open>
  \<^verbatim>\<open>
  def __init__(self, model, curves):
      assert(len(curves) > 0)
      self.curves = curves
      for p in model.params:
          a = copy(p)
          a.scope = p.def_scope
          a.value = p.def_value
          self[p.name] = a
  \<close>
  The loop fills the dictionary; \<open>Parameters_init\<close> returns the attributes of the new
  container, its items in the interpreter's iteration order.
\<close>

fun init_loop :: "parameter list \<Rightarrow> (string \<times> addr) list \<Rightarrow> store \<Rightarrow> (string \<times> addr) list \<times> store" where
  "init_loop [] d h = (d, h)"
| "init_loop (p # ps) d h =
     (let a = \<lparr>name = name p, description = description p, def_value = def_value p,
                def_scope = def_scope p, scope = def_scope p, value = def_value p\<rparr>
      in init_loop ps (AList.update (name p) (length h) d) (h @ [a]))"

definition Parameters_init :: "(string list \<Rightarrow> string list) \<Rightarrow> model \<Rightarrow> curve list \<Rightarrow> store
    \<Rightarrow> (error + Parameters) \<times> store" where
  "Parameters_init ord m cs h =
     (if \<not> length cs > 0 then (Inl AssertionError, h)
      else (case init_loop (params m) [] h of
              (d, h') \<Rightarrow>
                (Inr \<lparr>items = in_order ord d, curves = cs, fitted = None, fixed = None\<rparr>, h')))"

text \<open>
  \<^verbatim>\<open>
  def validate(self):
      self._fitted = []
      self._fixed = []
      for p in self.values():
          if p.scope == 'fitted':
              self._fitted.append(p.name)
          elif p.scope == 'fixed':
              self._fixed.append(p.name)
          else:
              raise RuntimeError('Invalid scope')
  \<close>
  \<open>validate\<close> reads the instances and writes only attributes of the container. The
  loop returns the two lists as far as they were built, with the exception if one was
  raised. \<open>validate\<close> is the method as a function of the container's attributes;
  \<open>validate_obj\<close> is the call on a container object, which is left with the lists as
  far as they were built.
\<close>

fun validate_loop :: "store \<Rightarrow> addr list \<Rightarrow> string list \<Rightarrow> string list
    \<Rightarrow> error option \<times> string list \<times> string list" where
  "validate_loop h [] ft fx = (None, ft, fx)"
| "validate_loop h (a # as) ft fx =
     (let p = h ! a in
      if scope p = Some ''fitted'' then validate_loop h as (ft @ [name p]) fx
      else if scope p = Some ''fixed'' then validate_loop h as ft (fx @ [name p])
      else (Some (RuntimeError ''Invalid scope''), ft, fx))"

definition validate :: "Parameters \<Rightarrow> store \<Rightarrow> error + Parameters" where
  "validate self h =
     (case validate_loop h (map snd (items self)) [] [] of
        (Some e, ft, fx) \<Rightarrow> Inl e
      | (None, ft, fx) \<Rightarrow> Inr (self\<lparr>fitted := Some ft, fixed := Some fx\<rparr>))"

definition validate_obj :: "addr \<Rightarrow> store \<Rightarrow> cstore \<Rightarrow> (error + unit) \<times> cstore" where
  "validate_obj c h g =
     (case validate_loop h (map snd (items (g ! c))) [] [] of
        (r, ft, fx) \<Rightarrow>
          ((case r of Some e \<Rightarrow> Inl e | None \<Rightarrow> Inr ()),
           g[c := (g ! c)\<lparr>fitted := Some ft, fixed := Some fx\<rparr>]))"

text \<open>
  \<^verbatim>\<open>
  def _unpack(self, packed):
      n = len(self.curves)
      i = 0
      for k in self._fitted:
          if isinstance(self[k], list):
              self[k].value = packed[i:i+n]
              i += n
          else:
              self[k].value = packed[i]
              i += 1
  \<close>
  The test is on \<open>self[k]\<close>, the instance itself, which is an object of class
  \<open>Parameter\<close> and never a list. A slice \<open>packed[i:i+n]\<close> is clamped to the vector;
  an index \<open>packed[i]\<close> beyond its end raises \<open>IndexError\<close>.
\<close>

definition isinstance_list_obj :: "pinstance \<Rightarrow> bool" where
  "isinstance_list_obj p = False"

definition set_value :: "addr \<Rightarrow> pyvalue \<Rightarrow> store \<Rightarrow> store" where
  "set_value a v h = h[a := (h ! a)\<lparr>value := v\<rparr>]"

fun unpack_loop :: "nat \<Rightarrow> real list \<Rightarrow> (string \<times> addr) list \<Rightarrow> string list \<Rightarrow> nat \<Rightarrow> store \<Rightarrow> (error + unit) \<times> store" where
  "unpack_loop n packed d [] i h = (Inr (), h)"
| "unpack_loop n packed d (k # ks) i h =
     (case map_of d k of
        None \<Rightarrow> (Inl (KeyError k), h)
      | Some a \<Rightarrow>
          if isinstance_list_obj (h ! a)
          then unpack_loop n packed d ks (i + n) (set_value a (PyList (take n (drop i packed))) h)
          else if i < length packed
          then unpack_loop n packed d ks (i + 1) (set_value a (Scalar (packed ! i)) h)
          else (Inl IndexError, h))"

definition unpack :: "Parameters \<Rightarrow> real list \<Rightarrow> store \<Rightarrow> (error + unit) \<times> store" where
  "unpack self packed h =
     (case fitted self of
        None \<Rightarrow> (Inl (AttributeError ''_fitted''), h)
      | Some ks \<Rightarrow> unpack_loop (length (curves self)) packed (items self) ks 0 h)"

text \<open>
  \<^verbatim>\<open>
  def _pack(self):
      packed = []
      for k in self._fitted:
          if isinstance(self[k].value, list):
              packed.extend(self[k].value)
          else:
              packed.append(self[k].value)
      return np.array(packed)
  \<close>
\<close>

fun pack_loop :: "store \<Rightarrow> (string \<times> addr) list \<Rightarrow> string list \<Rightarrow> real list \<Rightarrow> error + real list" where
  "pack_loop h d [] packed = Inr packed"
| "pack_loop h d (k # ks) packed =
     (case map_of d k of
        None \<Rightarrow> Inl (KeyError k)
      | Some a \<Rightarrow>
          (case value (h ! a) of
             PyList vs \<Rightarrow> pack_loop h d ks (packed @ vs)
           | Scalar v \<Rightarrow> pack_loop h d ks (packed @ [v])))"

definition pack :: "Parameters \<Rightarrow> store \<Rightarrow> error + real list" where
  "pack self h =
     (case fitted self of
        None \<Rightarrow> Inl (AttributeError ''_fitted'')
      | Some ks \<Rightarrow> pack_loop h (items self) ks [])"

text \<open>
  \<^verbatim>\<open>
  def _curve_params(self, curve):
      params = {}
      for k in self:
          v = self[k].value
          params[k] = v[i] if isinstance(v, list) else v
      return params
  \<close>
  The argument is called \<open>curve\<close>; the name \<open>i\<close> is bound neither in the method nor in the
  module, so evaluating \<open>v[i]\<close> raises \<open>NameError\<close>. The keys are visited in the
  iteration order of the container's dictionary. The result is the new dictionary
  \<open>params\<close>, given by its entries in the order they were set; a model looks its
  parameters up by name.
\<close>

fun curve_params_loop :: "store \<Rightarrow> (string \<times> addr) list \<Rightarrow> string list \<Rightarrow> cparams \<Rightarrow> error + cparams" where
  "curve_params_loop h d [] ps = Inr ps"
| "curve_params_loop h d (k # ks) ps =
     (case map_of d k of
        None \<Rightarrow> Inl (KeyError k)
      | Some a \<Rightarrow>
          (case value (h ! a) of
             PyList vs \<Rightarrow> Inl (NameError ''i'')
           | Scalar x \<Rightarrow> curve_params_loop h d ks (AList.update k x ps)))"

definition curve_params :: "Parameters \<Rightarrow> nat \<Rightarrow> store \<Rightarrow> error + cparams" where
  "curve_params self curve h = curve_params_loop h (items self) (map fst (items self)) []"

subsection \<open>The residual function\<close>

text \<open>
  Element-wise numpy arithmetic on one-dimensional arrays: equal lengths combine point
  by point, an array of length one is broadcast, any other pair of lengths raises.
\<close>

definition np_broadcast :: "(real \<Rightarrow> real \<Rightarrow> real) \<Rightarrow> real list \<Rightarrow> real list \<Rightarrow> error + real list" where
  "np_broadcast f xs ys =
     (if length xs = length ys then Inr (map2 f xs ys)
      else if length ys = 1 then Inr (map (\<lambda>x. f x (hd ys)) xs)
      else if length xs = 1 then Inr (map (\<lambda>y. f (hd xs) y) ys)
      else Inl (ValueError ''operands could not be broadcast together''))"

text \<open>
  \<^verbatim>\<open>
  def _compute_error(p, curves, params, model):
      err = []
      params._unpack(p)
      for i,c in enumerate(curves):
          cparams = params._curve_params(i)
          G = model(cparams, c['lag'])
          err.extend((c['G'] - G) / c['var']**2)
      err = np.array(err)
      return err
  \<close>
\<close>

fun compute_error_loop :: "(nat \<times> curve) list \<Rightarrow> Parameters \<Rightarrow> model \<Rightarrow> store \<Rightarrow> real list \<Rightarrow> error + real list" where
  "compute_error_loop [] ps m h err = Inr err"
| "compute_error_loop ((i, c) # ics) ps m h err =
     (case curve_params ps i h of
        Inl e \<Rightarrow> Inl e
      | Inr cps \<Rightarrow>
          (case call m cps (lag c) of
             Inl e \<Rightarrow> Inl e
           | Inr Gm \<Rightarrow>
               (case np_broadcast (-) (G c) Gm of
                  Inl e \<Rightarrow> Inl e
                | Inr d \<Rightarrow>
                    (case np_broadcast (/) d (map (\<lambda>v. v ^ 2) (var c)) of
                       Inl e \<Rightarrow> Inl e
                     | Inr r \<Rightarrow> compute_error_loop ics ps m h (err @ r)))))"

definition compute_error :: "real list \<Rightarrow> curve list \<Rightarrow> Parameters \<Rightarrow> model \<Rightarrow> store \<Rightarrow> (error + real list) \<times> store" where
  "compute_error p cs ps m h =
     (case unpack ps p h of
        (Inl e, h') \<Rightarrow> (Inl e, h')
      | (Inr u, h') \<Rightarrow> (compute_error_loop (enumerate 0 cs) ps m h' [], h'))"

subsection \<open>The external solver\<close>

text \<open>
  \<open>scipy.optimize.leastsq\<close> is outside the repository. It is modelled by what it can do
  to the program: starting from the initial vector it calls the residual function on
  trial vectors of its choice, each choice depending on the residuals seen so far, and
  after finitely many calls it returns the final vector with the covariance (\<open>None\<close>
  when the solver has none), or raises. The other three components of its result are
  not read by \<open>fit\<close>. An exception of the residual function propagates.
\<close>

type_synonym cov = "real list list option"

datatype solver =
    Return "real list" cov
  | Raise error
  | Call "real list" "real list \<Rightarrow> solver"

primrec run_solver :: "solver \<Rightarrow> (real list \<Rightarrow> store \<Rightarrow> (error + real list) \<times> store) \<Rightarrow> store
    \<Rightarrow> (error + (real list \<times> cov)) \<times> store" where
  "run_solver (Return p cov_x) f h = (Inr (p, cov_x), h)"
| "run_solver (Raise e) f h = (Inl e, h)"
| "run_solver (Call x k) f h =
     (case f x h of
        (Inl e, h') \<Rightarrow> (Inl e, h')
      | (Inr r, h') \<Rightarrow> run_solver (k r) f h')"

subsection \<open>Deep copy\<close>

text \<open>
  \<open>deepcopy(params)\<close> allocates a new container whose dictionary refers to new
  instances: the items of the original are visited in iteration order, every instance
  reachable from the original is copied once (the memo keeps shared references shared)
  into a newly allocated object, and the copies are inserted into the new dictionary
  in that order. The other attributes of the container are copied with it. Curves,
  names and values are immutable in the model and copied as values.
\<close>

fun deepcopy_items :: "(string \<times> addr) list \<Rightarrow> (addr \<times> addr) list \<Rightarrow> (string \<times> addr) list \<Rightarrow> store
    \<Rightarrow> (string \<times> addr) list \<times> store" where
  "deepcopy_items [] memo d h = (d, h)"
| "deepcopy_items ((k, a) # kas) memo d h =
     (case map_of memo a of
        Some a' \<Rightarrow> deepcopy_items kas memo (d @ [(k, a')]) h
      | None \<Rightarrow> deepcopy_items kas ((a, length h) # memo) (d @ [(k, length h)]) (h @ [h ! a]))"

definition deepcopy :: "(string list \<Rightarrow> string list) \<Rightarrow> addr \<Rightarrow> store \<Rightarrow> cstore
    \<Rightarrow> addr \<times> store \<times> cstore" where
  "deepcopy ord c h g =
     (case deepcopy_items (items (g ! c)) [] [] h of
        (d, h') \<Rightarrow> (length g, h', g @ [(g ! c)\<lparr>items := in_order ord d\<rparr>]))"

subsection \<open>The fit driver\<close>

text \<open>
  \<^verbatim>\<open>
  def fit(curves, model, params):
      params = deepcopy(params)
      params.validate()
      p0 = params._pack()
      res = scipy.optimize.leastsq(_compute_error, p0, args=(curves, params, model),
                                   full_output=True, epsfcn=1e-7)
      p, cov_x, infodict, mesg, ier = res
      if cov_x is None: raise RuntimeError('Fit failed to converge (flat axis)')
      params._unpack(p)
      return params
  \<close>
  The solver is a parameter: a function from the initial vector to its behaviour.
  \<open>params\<close> is a reference: \<open>fit\<close> takes the address of the caller's container and
  returns the address of the container it worked on. After \<open>validate\<close> no statement
  assigns an attribute of a container, so the methods called later are applied to the
  attributes that the working container has then.
\<close>

definition fit :: "(string list \<Rightarrow> string list) \<Rightarrow> (real list \<Rightarrow> solver) \<Rightarrow> curve list \<Rightarrow> model
    \<Rightarrow> addr \<Rightarrow> store \<Rightarrow> cstore \<Rightarrow> (error + addr) \<times> store \<times> cstore" where
  "fit ord leastsq cs m c h0 g0 =
     (case deepcopy ord c h0 g0 of
        (c1, h1, g1) \<Rightarrow>
          (case validate_obj c1 h1 g1 of
             (Inl e, g2) \<Rightarrow> (Inl e, h1, g2)
           | (Inr u, g2) \<Rightarrow>
               (case pack (g2 ! c1) h1 of
                  Inl e \<Rightarrow> (Inl e, h1, g2)
                | Inr p0 \<Rightarrow>
                    (case run_solver (leastsq p0) (\<lambda>p. compute_error p cs (g2 ! c1) m) h1 of
                       (Inl e, h2) \<Rightarrow> (Inl e, h2, g2)
                     | (Inr (p, cov_x), h2) \<Rightarrow>
                         if cov_x = None
                         then (Inl (RuntimeError ''Fit failed to converge (flat axis)''), h2, g2)
                         else (case unpack (g2 ! c1) p h2 of
                                 (Inl e, h3) \<Rightarrow> (Inl e, h3, g2)
                               | (Inr u, h3) \<Rightarrow> (Inr c1, h3, g2))))))"

subsection \<open>Well-formed containers and the vocabulary of the properties\<close>

text \<open>
  A container built by the constructor has one instance per key, no instance under two
  keys, and files each instance under its own name. Assignments to \<open>scope\<close> and \<open>value\<close>
  keep that.
\<close>

definition wf_params :: "Parameters \<Rightarrow> store \<Rightarrow> bool" where
  "wf_params self h =
     (distinct (map fst (items self)) \<and> distinct (map snd (items self)) \<and>
      list_all (\<lambda>(k, a). a < length h \<and> name (h ! a) = k) (items self))"

text \<open>The instances whose scope is \<open>fitted\<close>, in the order of the dictionary.\<close>

definition fitted_instances :: "Parameters \<Rightarrow> store \<Rightarrow> pinstance list" where
  "fitted_instances self h =
     filter (\<lambda>p. scope p = Some ''fitted'') (map (\<lambda>(k, a). h ! a) (items self))"

fun flat :: "pyvalue \<Rightarrow> real list" where
  "flat (Scalar v) = [v]"
| "flat (PyList vs) = vs"

fun is_list :: "pyvalue \<Rightarrow> bool" where
  "is_list (Scalar v) = False"
| "is_list (PyList vs) = True"

text \<open>The names that \<open>validate\<close> collects in \<open>_fitted\<close>.\<close>

definition fitted_keys :: "Parameters \<Rightarrow> store \<Rightarrow> string list" where
  "fitted_keys self h =
     map name (filter (\<lambda>p. scope p = Some ''fitted'') (map ((!) h) (map snd (items self))))"

text \<open>The number held by a scalar value.\<close>

fun scalar_of :: "pyvalue \<Rightarrow> real" where
  "scalar_of (Scalar v) = v"
| "scalar_of (PyList vs) = 0"

text \<open>The shape invariant of the data model: a per-curve value has one entry per curve.\<close>

definition shaped :: "nat \<Rightarrow> pyvalue \<Rightarrow> bool" where
  "shaped n v = (case v of Scalar x \<Rightarrow> True | PyList vs \<Rightarrow> length vs = n)"

text \<open>
  The residual of one curve in the words of the specification: observed minus predicted,
  divided by the squared variance, point by point.
\<close>

definition weighted_residual :: "real list \<Rightarrow> real list \<Rightarrow> real list \<Rightarrow> real list" where
  "weighted_residual obs pred vs = map (\<lambda>(g, gm, v). (g - gm) / v ^ 2) (zip obs (zip pred vs))"

subsection \<open>Which objects an operation may write\<close>

text \<open>
  Two stores agree outside a set of addresses: same size, same object at every address
  not in the set.
\<close>

definition frame :: "addr set \<Rightarrow> store \<Rightarrow> store \<Rightarrow> bool" where
  "frame W h h' = (length h' = length h \<and> (\<forall>a. a \<notin> W \<longrightarrow> h' ! a = h ! a))"

text \<open>The addresses that the dictionary assigns to a list of keys.\<close>

definition written :: "(string \<times> addr) list \<Rightarrow> string list \<Rightarrow> addr set" where
  "written d ks = {a. \<exists>k \<in> set ks. map_of d k = Some a}"

text \<open>The instances that \<open>_unpack\<close> assigns to: those filed under the names in \<open>_fitted\<close>.\<close>

definition targets :: "Parameters \<Rightarrow> addr set" where
  "targets ps = (case fitted ps of None \<Rightarrow> {} | Some ks \<Rightarrow> written (items ps) ks)"

subsection \<open>Example containers\<close>

text \<open>
  Two curves that share a scalar fitted parameter \<open>k\<close>, with a per-curve fitted
  parameter \<open>d\<close> and a fixed parameter \<open>b\<close>. The instances are allocated in declaration
  order; the dictionary iterates \<open>k\<close>, \<open>b\<close>, \<open>d\<close>.
\<close>

definition curve1 :: curve where
  "curve1 = \<lparr>lag = [1, 2], G = [5, 7], var = [1, 2]\<rparr>"

definition curve2 :: curve where
  "curve2 = \<lparr>lag = [1, 2], G = [6, 8], var = [1, 1]\<rparr>"

definition shared_model :: model where
  "shared_model =
     \<lparr>params =
        [\<lparr>name = ''k'', description = ''slope'', def_value = Scalar 1, def_scope = Some ''fitted''\<rparr>,
         \<lparr>name = ''d'', description = ''offset'', def_value = PyList [3, 4], def_scope = Some ''fitted''\<rparr>,
         \<lparr>name = ''b'', description = ''shift'', def_value = Scalar 0, def_scope = Some ''fixed''\<rparr>],
      call = (\<lambda>cps x.
        case (map_of cps ''k'', map_of cps ''d'', map_of cps ''b'') of
          (Some k, Some d, Some b) \<Rightarrow> Inr (map (\<lambda>t. k * t + d + b) x)
        | _ \<Rightarrow> Inl (KeyError ''k''))\<rparr>"

definition shared_store :: store where
  "shared_store =
     [\<lparr>name = ''k'', description = ''slope'', def_value = Scalar 1, def_scope = Some ''fitted'',
        scope = Some ''fitted'', value = Scalar 1\<rparr>,
      \<lparr>name = ''d'', description = ''offset'', def_value = PyList [3, 4], def_scope = Some ''fitted'',
        scope = Some ''fitted'', value = PyList [3, 4]\<rparr>,
      \<lparr>name = ''b'', description = ''shift'', def_value = Scalar 0, def_scope = Some ''fixed'',
        scope = Some ''fixed'', value = Scalar 0\<rparr>]"

definition shared_params :: Parameters where
  "shared_params =
     \<lparr>items = [(''k'', 0), (''b'', 2), (''d'', 1)], curves = [curve1, curve2],
      fitted = None, fixed = None\<rparr>"

definition shared_valid :: Parameters where
  "shared_valid = shared_params\<lparr>fitted := Some [''k'', ''d''], fixed := Some [''b'']\<rparr>"

text \<open>One curve and the line \<open>a * x + b\<close>, with \<open>a\<close> fitted and \<open>b\<close> fixed at zero.\<close>

definition line_curve :: curve where
  "line_curve = \<lparr>lag = [1, 2, 3, 4], G = [2, 4, 6, 8], var = [1, 1, 1, 1]\<rparr>"

definition line_model :: model where
  "line_model =
     \<lparr>params =
        [\<lparr>name = ''a'', description = ''slope'', def_value = Scalar 1, def_scope = Some ''fitted''\<rparr>,
         \<lparr>name = ''b'', description = ''intercept'', def_value = Scalar 0, def_scope = Some ''fixed''\<rparr>],
      call = (\<lambda>cps x.
        case (map_of cps ''a'', map_of cps ''b'') of
          (Some a, Some b) \<Rightarrow> Inr (map (\<lambda>t. a * t + b) x)
        | _ \<Rightarrow> Inl (KeyError ''a''))\<rparr>"

definition line_store :: store where
  "line_store =
     [\<lparr>name = ''a'', description = ''slope'', def_value = Scalar 1, def_scope = Some ''fitted'',
        scope = Some ''fitted'', value = Scalar 1\<rparr>,
      \<lparr>name = ''b'', description = ''intercept'', def_value = Scalar 0, def_scope = Some ''fixed'',
        scope = Some ''fixed'', value = Scalar 0\<rparr>]"

definition line_params :: Parameters where
  "line_params =
     \<lparr>items = [(''a'', 0), (''b'', 1)], curves = [line_curve], fitted = None, fixed = None\<rparr>"

definition line_valid :: Parameters where
  "line_valid = line_params\<lparr>fitted := Some [''a''], fixed := Some [''b'']\<rparr>"

text \<open>A model whose only parameter is declared without a default scope.\<close>

definition unscoped_model :: model where
  "unscoped_model =
     \<lparr>params = [\<lparr>name = ''a'', description = ''slope'', def_value = Scalar 1, def_scope = None\<rparr>],
      call = (\<lambda>cps x. Inr x)\<rparr>"

definition unscoped_store :: store where
  "unscoped_store =
     [\<lparr>name = ''a'', description = ''slope'', def_value = Scalar 1, def_scope = None,
        scope = None, value = Scalar 1\<rparr>]"

definition unscoped_params :: Parameters where
  "unscoped_params = \<lparr>items = [(''a'', 0)], curves = [line_curve], fitted = None, fixed = None\<rparr>"

text \<open>
  A solver that evaluates the residual function once, at the initial vector, and then
  returns the vector \<open>[2, 3, 4]\<close> with a covariance.
\<close>

definition shared_solver :: "real list \<Rightarrow> solver" where
  "shared_solver p0 = Call p0 (\<lambda>r. Return [2, 3, 4] (Some [[1]]))"

text \<open>
  The copy that \<open>deepcopy\<close> makes of the two-curve example: the instances are copied
  in iteration order to the addresses 3, 4 and 5. The store after the copy, the copy
  after \<open>validate\<close>, and the store that \<open>fit\<close> leaves behind for the solver above.
\<close>

definition shared_copy :: Parameters where
  "shared_copy = shared_params\<lparr>items := [(''k'', 3), (''b'', 4), (''d'', 5)]\<rparr>"

definition shared_copy_store :: store where
  "shared_copy_store = shared_store @ [shared_store ! 0, shared_store ! 2, shared_store ! 1]"

definition shared_fitted :: Parameters where
  "shared_fitted = shared_valid\<lparr>items := [(''k'', 3), (''b'', 4), (''d'', 5)]\<rparr>"

definition shared_fitted_store :: store where
  "shared_fitted_store =
     shared_store @ [(shared_store ! 0)\<lparr>value := Scalar 2\<rparr>, shared_store ! 2,
                     (shared_store ! 1)\<lparr>value := Scalar 3\<rparr>]"

text \<open>
  The same for the line: a solver that evaluates the residual function at the initial
  vector and returns \<open>[2]\<close> with a covariance, the copy of the container, the copy
  after \<open>validate\<close>, and the stores after the copy and after \<open>fit\<close>.
\<close>

definition line_solver :: "real list \<Rightarrow> solver" where
  "line_solver p0 = Call p0 (\<lambda>r. Return [2] (Some [[1]]))"

definition line_copy :: Parameters where
  "line_copy = line_params\<lparr>items := [(''a'', 2), (''b'', 3)]\<rparr>"

definition line_copy_store :: store where
  "line_copy_store = line_store @ line_store"

definition line_fitted :: Parameters where
  "line_fitted = line_valid\<lparr>items := [(''a'', 2), (''b'', 3)]\<rparr>"

definition line_fitted_store :: store where
  "line_fitted_store = line_store @ [(line_store ! 0)\<lparr>value := Scalar 2\<rparr>, line_store ! 1]"

text \<open>A solver that returns the initial vector at once and reports a covariance.\<close>

definition reporting_solver :: "real list \<Rightarrow> solver" where
  "reporting_solver p0 = Return p0 (Some [[1]])"

text \<open>
  Three scalar fitted parameters declared in the order \<open>a\<close>, \<open>b\<close>, \<open>c\<close> with the
  values 1, 2 and 3; the dictionary iterates \<open>a\<close>, \<open>c\<close>, \<open>b\<close>.
\<close>

definition abc_model :: model where
  "abc_model =
     \<lparr>params =
        [\<lparr>name = ''a'', description = ''first'', def_value = Scalar 1, def_scope = Some ''fitted''\<rparr>,
         \<lparr>name = ''b'', description = ''second'', def_value = Scalar 2, def_scope = Some ''fitted''\<rparr>,
         \<lparr>name = ''c'', description = ''third'', def_value = Scalar 3, def_scope = Some ''fitted''\<rparr>],
      call = (\<lambda>cps x. Inr x)\<rparr>"

definition abc_store :: store where
  "abc_store =
     [\<lparr>name = ''a'', description = ''first'', def_value = Scalar 1, def_scope = Some ''fitted'',
        scope = Some ''fitted'', value = Scalar 1\<rparr>,
      \<lparr>name = ''b'', description = ''second'', def_value = Scalar 2, def_scope = Some ''fitted'',
        scope = Some ''fitted'', value = Scalar 2\<rparr>,
      \<lparr>name = ''c'', description = ''third'', def_value = Scalar 3, def_scope = Some ''fitted'',
        scope = Some ''fitted'', value = Scalar 3\<rparr>]"

definition abc_params :: Parameters where
  "abc_params =
     \<lparr>items = [(''a'', 0), (''c'', 2), (''b'', 1)], curves = [line_curve], fitted = None, fixed = None\<rparr>"

definition abc_valid :: Parameters where
  "abc_valid = abc_params\<lparr>fitted := Some [''a'', ''c'', ''b''], fixed := Some []\<rparr>"


section \<open>Properties of the model registry\<close>

lemma map_of_reg_loop:
  "map_of (reg_loop ns cls ms) k = (if k \<in> set ns then Some cls else map_of ms k)"
  by (induction ns arbitrary: ms) (auto simp: update_conv')

lemma values_update_subset:
  "snd ` set (AList.update k v al) \<subseteq> insert v (snd ` set al)"
  by (induction al) auto

lemma values_reg_loop:
  "snd ` set (reg_loop ns cls ms) \<subseteq> insert cls (snd ` set ms)"
proof (induction ns arbitrary: ms)
  case Nil
  then show ?case by auto
next
  case (Cons n ns)
  have "snd ` set (reg_loop ns cls (AList.update n cls ms)) \<subseteq> insert cls (snd ` set (AList.update n cls ms))"
    by (rule Cons.IH)
  also have "\<dots> \<subseteq> insert cls (snd ` set ms)"
    using values_update_subset [of n cls ms] by auto
  finally show ?case by simp
qed

text \<open>
  Claim C9, as stated: registering a model under a name that is already in the registry
  fails at registration time and never silently overwrites the earlier registration.
  The code has no such check. Registering class \<open>B\<close> under the name \<open>fcs\<close>, which is
  bound to class \<open>A\<close>, succeeds and leaves \<open>fcs\<close> bound to \<open>B\<close>.
\<close>

theorem register_duplicate_counterexample:
  "register_model [''fcs''] (PyClass ''B'' [Model]) [(''fcs'', PyClass ''A'' [Model])]
     = (Inr (PyClass ''B'' [Model]), [(''fcs'', PyClass ''B'' [Model])])"
  by (simp add: register_model_def reg_def Model_def object_def)

text \<open>
  Claim C9, amended: registering a subclass of \<open>Model\<close> never fails, whether or not a name
  is already present; afterwards every listed name is bound to the newly registered
  class (an earlier registration under that name is overwritten) and every other name
  is bound as before.
\<close>

theorem register_model_overwrites:
  assumes "issubclass cls Model"
  shows "fst (register_model names cls ms) = Inr cls \<and>
         map_of (snd (register_model names cls ms)) n
           = (if n \<in> set names then Some cls else map_of ms n)"
  using assms by (simp add: register_model_def reg_def map_of_reg_loop)

theorem register_model_overwrites_witness:
  "issubclass (PyClass ''B'' [Model]) Model \<and>
   fst (register_model [''fcs''] (PyClass ''B'' [Model]) [(''fcs'', PyClass ''A'' [Model])])
     = Inr (PyClass ''B'' [Model]) \<and>
   map_of (snd (register_model [''fcs''] (PyClass ''B'' [Model]) [(''fcs'', PyClass ''A'' [Model])])) ''fcs''
     = Some (PyClass ''B'' [Model])"
proof -
  have h: "issubclass (PyClass ''B'' [Model]) Model"
    by (simp add: Model_def object_def)
  from register_model_overwrites [OF h, of "[''fcs'']" "[(''fcs'', PyClass ''A'' [Model])]" "''fcs''"] h
  show ?thesis by simp
qed

text \<open>
  Claim C10: applied to a class that is not a subclass of \<open>Model\<close>, the decorator raises
  and leaves the registry as it was; hence if every class in the registry is a subclass
  of \<open>Model\<close> before a registration, the same holds after it.
\<close>

theorem register_model_only_Model_subclasses:
  "(\<not> issubclass cls Model \<longrightarrow> (\<exists>e. register_model names cls ms = (Inl e, ms))) \<and>
   ((\<forall>c \<in> snd ` set ms. issubclass c Model) \<longrightarrow>
      (\<forall>c \<in> snd ` set (snd (register_model names cls ms)). issubclass c Model))"
proof (intro conjI impI)
  assume "\<not> issubclass cls Model"
  then show "\<exists>e. register_model names cls ms = (Inl e, ms)"
    by (simp add: register_model_def reg_def)
next
  assume inv: "\<forall>c \<in> snd ` set ms. issubclass c Model"
  show "\<forall>c \<in> snd ` set (snd (register_model names cls ms)). issubclass c Model"
  proof (cases "issubclass cls Model")
    case False
    with inv show ?thesis by (simp add: register_model_def reg_def)
  next
    case True
    have "snd (register_model names cls ms) = reg_loop names cls ms"
      using True by (simp add: register_model_def reg_def)
    moreover have "\<forall>c \<in> insert cls (snd ` set ms). issubclass c Model"
      using True inv by simp
    ultimately show ?thesis
      using values_reg_loop [of names cls ms] by (metis subsetD)
  qed
qed

theorem register_model_only_Model_subclasses_witness:
  "\<not> issubclass object Model \<and> list_all (\<lambda>c. issubclass c Model) (map snd [(''fcs'', Model)]) \<and>
   (\<exists>e. register_model [''fcs''] object [(''fcs'', Model)] = (Inl e, [(''fcs'', Model)])) \<and>
   list_all (\<lambda>c. issubclass c Model) (map snd (snd (register_model [''fcs''] object [(''fcs'', Model)])))"
proof -
  have h1: "\<not> issubclass object Model"
    by (simp add: object_def Model_def)
  have h2: "\<forall>c \<in> snd ` set [(''fcs'', Model)]. issubclass c Model"
    by (simp add: Model_def)
  from register_model_only_Model_subclasses [of object "[''fcs'']" "[(''fcs'', Model)]"] h1 h2
  have "(\<exists>e. register_model [''fcs''] object [(''fcs'', Model)] = (Inl e, [(''fcs'', Model)])) \<and>
        (\<forall>c \<in> snd ` set (snd (register_model [''fcs''] object [(''fcs'', Model)])). issubclass c Model)"
    by blast
  with h1 h2 show ?thesis
    by (simp add: list_all_iff)
qed


section \<open>The example containers are what the constructor builds\<close>

text \<open>The iteration orders of CPython 2.7 for the dictionaries of the examples.\<close>

lemma order_abc: "cpython2_order [''a'', ''b'', ''c''] = [''a'', ''c'', ''b'']"
  by code_simp

lemma order_kdb: "cpython2_order [''k'', ''d'', ''b''] = [''k'', ''b'', ''d'']"
  by code_simp

lemma order_kbd: "cpython2_order [''k'', ''b'', ''d''] = [''k'', ''b'', ''d'']"
  by code_simp

lemma order_ab: "cpython2_order [''a'', ''b''] = [''a'', ''b'']"
  by code_simp

lemma order_a: "cpython2_order [''a''] = [''a'']"
  by code_simp

lemma shared_init:
  "Parameters_init cpython2_order shared_model [curve1, curve2] [] = (Inr shared_params, shared_store)"
  by (simp add: Parameters_init_def shared_model_def shared_params_def shared_store_def
        in_order_def order_kdb List.map_filter_simps)

lemma line_init:
  "Parameters_init cpython2_order line_model [line_curve] [] = (Inr line_params, line_store)"
  by (simp add: Parameters_init_def line_model_def line_params_def line_store_def
        in_order_def order_ab List.map_filter_simps)

lemma unscoped_init:
  "Parameters_init cpython2_order unscoped_model [line_curve] [] = (Inr unscoped_params, unscoped_store)"
  by (simp add: Parameters_init_def unscoped_model_def unscoped_params_def unscoped_store_def
        in_order_def order_a List.map_filter_simps)

lemma abc_init:
  "Parameters_init cpython2_order abc_model [line_curve] [] = (Inr abc_params, abc_store)"
  by (simp add: Parameters_init_def abc_model_def abc_params_def abc_store_def
        in_order_def order_abc List.map_filter_simps)

lemma shared_wf: "wf_params shared_params shared_store"
  by (simp add: wf_params_def shared_params_def shared_store_def)

lemma line_wf: "wf_params line_params line_store"
  by (simp add: wf_params_def line_params_def line_store_def)

lemma abc_wf: "wf_params abc_params abc_store"
  by (simp add: wf_params_def abc_params_def abc_store_def)

lemma shared_validate: "validate shared_params shared_store = Inr shared_valid"
  by (simp add: validate_def shared_params_def shared_store_def shared_valid_def)

lemma line_validate: "validate line_params line_store = Inr line_valid"
  by (simp add: validate_def line_params_def line_store_def line_valid_def)

lemma abc_validate: "validate abc_params abc_store = Inr abc_valid"
  by (simp add: validate_def abc_params_def abc_store_def abc_valid_def)


section \<open>The constructor builds well-formed containers\<close>

text \<open>
  Whatever the model declares and whatever the iteration order of the interpreter, as
  long as it visits each key once, the container that the constructor returns is well
  formed; and when the declared names are distinct, its dictionary iterates the
  declared names in the interpreter's order for them.
\<close>

lemma in_order_subset: "set (in_order ord d) \<subseteq> set d"
  by (auto simp: in_order_def List.map_filter_def dest: map_of_SomeD)

lemma in_order_permutes:
  assumes "distinct (map fst d)" and "permutes ord (map fst d)"
  shows "in_order ord d = map (\<lambda>k. (k, the (map_of d k))) (ord (map fst d))"
    and "map fst (in_order ord d) = ord (map fst d)"
    and "set (in_order ord d) = set d"
proof -
  have dom: "\<exists>v. map_of d k = Some v" if "k \<in> set (ord (map fst d))" for k
  proof -
    from that assms(2) have "k \<in> fst ` set d" by (simp add: permutes_def)
    then show ?thesis by (metis map_of_eq_None_iff not_None_eq)
  qed
  then have all: "filter (\<lambda>k. map_option (Pair k) (map_of d k) \<noteq> None) (ord (map fst d)) = ord (map fst d)"
    by (auto simp: filter_id_conv)
  show eq: "in_order ord d = map (\<lambda>k. (k, the (map_of d k))) (ord (map fst d))"
    unfolding in_order_def List.map_filter_def all using dom by fastforce
  show "map fst (in_order ord d) = ord (map fst d)"
    by (simp add: eq comp_def)
  show "set (in_order ord d) = set d"
  proof
    show "set (in_order ord d) \<subseteq> set d" by (rule in_order_subset)
    show "set d \<subseteq> set (in_order ord d)"
    proof
      fix kv assume kv: "kv \<in> set d"
      then have "map_of d (fst kv) = Some (snd kv)" using assms(1) by simp
      moreover have "fst kv \<in> set (ord (map fst d))" using kv assms(2) by (simp add: permutes_def)
      ultimately show "kv \<in> set (in_order ord d)" by (force simp: eq)
    qed
  qed
qed

lemma distinct_snd_key:
  "distinct (map snd d) \<Longrightarrow> (k, a) \<in> set d \<Longrightarrow> (k', a) \<in> set d \<Longrightarrow> k = k'"
  by (induction d) (auto simp: image_iff)

lemma in_order_distinct_snd:
  assumes "distinct (map fst d)" and "distinct (map snd d)" and "permutes ord (map fst d)"
  shows "distinct (map snd (in_order ord d))"
proof -
  have "inj_on (\<lambda>k. the (map_of d k)) (set (ord (map fst d)))"
  proof (rule inj_onI)
    fix k k' assume k: "k \<in> set (ord (map fst d))" and k': "k' \<in> set (ord (map fst d))"
      and eq: "the (map_of d k) = the (map_of d k')"
    from k k' assms(3) have "k \<in> fst ` set d" "k' \<in> fst ` set d" by (simp_all add: permutes_def)
    then obtain v v' where "map_of d k = Some v" "map_of d k' = Some v'"
      by (metis map_of_eq_None_iff not_None_eq)
    with eq have "(k, v) \<in> set d" "(k', v) \<in> set d" by (auto dest: map_of_SomeD)
    with assms(2) show "k = k'" by (rule distinct_snd_key)
  qed
  moreover have "distinct (ord (map fst d))" using assms(3) by (simp add: permutes_def)
  ultimately show ?thesis
    by (simp add: in_order_permutes(1) [OF assms(1,3)] comp_def distinct_map)
qed

lemma wf_in_order:
  assumes "wf_params (ps\<lparr>items := d\<rparr>) h" and "permutes ord (map fst d)"
  shows "wf_params (ps\<lparr>items := in_order ord d\<rparr>) h"
proof -
  from assms(1) have d: "distinct (map fst d)" "distinct (map snd d)"
    and e: "\<forall>(k, a) \<in> set d. a < length h \<and> name (h ! a) = k"
    by (simp_all add: wf_params_def list_all_iff)
  have "distinct (map fst (in_order ord d))"
    using in_order_permutes(2) [OF d(1) assms(2)] assms(2) by (simp add: permutes_def)
  moreover have "distinct (map snd (in_order ord d))"
    by (rule in_order_distinct_snd [OF d assms(2)])
  moreover have "\<forall>(k, a) \<in> set (in_order ord d). a < length h \<and> name (h ! a) = k"
    using e in_order_subset [of ord d] by blast
  ultimately show ?thesis by (simp add: wf_params_def list_all_iff)
qed

lemma update_fresh_key:
  "k \<notin> fst ` set d \<Longrightarrow> AList.update k v d = d @ [(k, v)]"
  by (induction d) auto

lemma update_fresh_value:
  "distinct (map snd d) \<Longrightarrow> v \<notin> snd ` set d \<Longrightarrow> distinct (map snd (AList.update k v d))"
proof (induction d)
  case Nil
  then show ?case by simp
next
  case (Cons kv d)
  have "snd ` set (AList.update k v d) \<subseteq> insert v (snd ` set d)"
    by (rule values_update_subset)
  with Cons show ?case by (cases kv) (auto simp: image_iff)
qed

lemma update_entries:
  "(k', a') \<in> set (AList.update k v d) \<Longrightarrow> (k', a') = (k, v) \<or> (k', a') \<in> set d"
  by (induction d) (auto split: if_splits)

lemma init_loop_wf:
  assumes "init_loop ps d h = (d', h')"
    and "distinct (map fst d)" and "distinct (map snd d)"
    and "\<forall>(k, a) \<in> set d. a < length h \<and> name (h ! a) = k"
  shows "distinct (map fst d') \<and> distinct (map snd d') \<and>
         (\<forall>(k, a) \<in> set d'. a < length h' \<and> name (h' ! a) = k)"
  using assms
proof (induction ps arbitrary: d h)
  case Nil
  then show ?case by simp
next
  case (Cons p ps)
  let ?a = "\<lparr>name = name p, description = description p, def_value = def_value p,
             def_scope = def_scope p, scope = def_scope p, value = def_value p\<rparr>"
  let ?d = "AList.update (name p) (length h) d"
  from Cons.prems(1) have run: "init_loop ps ?d (h @ [?a]) = (d', h')"
    by (simp add: Let_def)
  have k: "distinct (map fst ?d)" using Cons.prems(2) by (rule distinct_update)
  have "length h \<notin> snd ` set d" using Cons.prems(4) by force
  with Cons.prems(3) have a: "distinct (map snd ?d)" by (rule update_fresh_value)
  have e: "\<forall>(k, a) \<in> set ?d. a < length (h @ [?a]) \<and> name ((h @ [?a]) ! a) = k"
  proof (clarify)
    fix k' a' assume "(k', a') \<in> set ?d"
    then consider "(k', a') = (name p, length h)" | "(k', a') \<in> set d"
      using update_entries by fastforce
    then show "a' < length (h @ [?a]) \<and> name ((h @ [?a]) ! a') = k'"
    proof cases
      case 1
      then show ?thesis by simp
    next
      case 2
      with Cons.prems(4) have "a' < length h" "name (h ! a') = k'" by auto
      then show ?thesis by (simp add: nth_append)
    qed
  qed
  from Cons.IH [OF run k a e] show ?case .
qed

lemma init_loop_keys:
  assumes "distinct (map fst d @ map name ps)"
  shows "map fst (fst (init_loop ps d h)) = map fst d @ map name ps"
  using assms
proof (induction ps arbitrary: d h)
  case Nil
  then show ?case by simp
next
  case (Cons p ps)
  have fresh: "name p \<notin> fst ` set d" using Cons.prems by auto
  have d: "distinct (map fst (d @ [(name p, length h)]) @ map name ps)"
    using Cons.prems by auto
  show ?case
    using Cons.IH [OF d] by (simp add: Let_def update_fresh_key [OF fresh])
qed

lemma Parameters_init_wf:
  assumes "Parameters_init ord m cs h = (Inr self, h')"
    and "permutes ord (map fst (fst (init_loop (params m) [] h)))"
  shows "wf_params self h'" and "curves self = cs" and "cs \<noteq> []"
    and "distinct (map name (params m)) \<Longrightarrow> map fst (items self) = ord (map name (params m))"
proof -
  from assms(1) have ne: "cs \<noteq> []" by (auto simp: Parameters_init_def split: if_splits)
  obtain d h1 where il: "init_loop (params m) [] h = (d, h1)"
    by (cases "init_loop (params m) [] h")
  with assms(1) ne have self: "self = \<lparr>items = in_order ord d, curves = cs, fitted = None, fixed = None\<rparr>"
    and h': "h' = h1"
    by (simp_all add: Parameters_init_def)
  from assms(2) il have p: "permutes ord (map fst d)" by simp
  from init_loop_wf [OF il] h'
  have "wf_params (\<lparr>items = [], curves = cs, fitted = None, fixed = None\<rparr>\<lparr>items := d\<rparr>) h'"
    by (simp add: wf_params_def list_all_iff)
  from wf_in_order [OF this p] self show "wf_params self h'" by simp
  from self show "curves self = cs" by simp
  from ne show "cs \<noteq> []" .
  show "map fst (items self) = ord (map name (params m))" if "distinct (map name (params m))"
  proof -
    have k: "map fst d = map name (params m)"
      using init_loop_keys [of "[]" "params m" h] that il by simp
    with that have "distinct (map fst d)" by simp
    from in_order_permutes(2) [OF this p] k self show ?thesis by simp
  qed
qed


section \<open>Packing and unpacking\<close>

lemma validate_loop_None:
  "validate_loop h as ft fx = (None, ft', fx') \<Longrightarrow>
     ft' = ft @ map name (filter (\<lambda>p. scope p = Some ''fitted'') (map ((!) h) as))"
proof (induction as arbitrary: ft fx)
  case Nil
  then show ?case by simp
next
  case (Cons a as)
  show ?case
  proof (cases "scope (h ! a) = Some ''fitted''")
    case True
    with Cons.prems have "validate_loop h as (ft @ [name (h ! a)]) fx = (None, ft', fx')"
      by (simp add: Let_def)
    from Cons.IH [OF this] True show ?thesis by simp
  next
    case False
    with Cons.prems have "validate_loop h as ft (fx @ [name (h ! a)]) = (None, ft', fx')"
      by (simp add: Let_def split: if_splits)
    from Cons.IH [OF this] False show ?thesis by simp
  qed
qed

lemma validate_fitted:
  assumes "validate self h = Inr self'"
  shows "fitted self' = Some (map name (filter (\<lambda>p. scope p = Some ''fitted'') (map ((!) h) (map snd (items self)))))"
    and "items self' = items self" and "curves self' = curves self"
proof -
  obtain r ft fx where vl: "validate_loop h (map snd (items self)) [] [] = (r, ft, fx)"
    by (cases "validate_loop h (map snd (items self)) [] []")
  with assms have r: "r = None" and self': "self' = self\<lparr>fitted := Some ft, fixed := Some fx\<rparr>"
    by (auto simp: validate_def split: option.splits)
  from validate_loop_None [OF vl [unfolded r]] self'
  show "fitted self' = Some (map name (filter (\<lambda>p. scope p = Some ''fitted'') (map ((!) h) (map snd (items self)))))"
    by simp
  from self' show "items self' = items self" and "curves self' = curves self" by simp_all
qed

lemma pack_loop_Inr:
  assumes "\<forall>k \<in> set ks. \<exists>a. map_of d k = Some a"
  shows "pack_loop h d ks acc = Inr (acc @ concat (map (\<lambda>k. flat (value (h ! the (map_of d k)))) ks))"
  using assms
proof (induction ks arbitrary: acc)
  case Nil
  then show ?case by simp
next
  case (Cons k ks)
  then obtain a where a: "map_of d k = Some a" by auto
  show ?case
  proof (cases "value (h ! a)")
    case (Scalar v)
    with a Cons show ?thesis by simp
  next
    case (PyList vs)
    with a Cons show ?thesis by simp
  qed
qed

lemma length_concat_flat:
  assumes "list_all (\<lambda>p. shaped n (value p)) ps"
  shows "length (concat (map (\<lambda>p. flat (value p)) ps))
           = length (filter (\<lambda>p. \<not> is_list (value p)) ps) + n * length (filter (\<lambda>p. is_list (value p)) ps)"
  using assms
proof (induction ps)
  case Nil
  then show ?case by simp
next
  case (Cons p ps)
  then show ?case by (cases "value p") (auto simp: shaped_def)
qed

lemma wf_lookup:
  assumes "wf_params self h" and "(k, a) \<in> set (items self)"
  shows "map_of (items self) k = Some a" and "name (h ! a) = k" and "a < length h"
  using assms by (auto simp: wf_params_def list_all_iff)

lemma fitted_names_lookup:
  assumes "wf_params self h"
  shows "map (\<lambda>k. h ! the (map_of (items self) k))
             (map name (filter (\<lambda>p. scope p = Some ''fitted'') (map ((!) h) (map snd (items self)))))
           = fitted_instances self h"
proof -
  have "\<And>ka. ka \<in> set (items self) \<Longrightarrow> h ! the (map_of (items self) (name (h ! snd ka))) = h ! snd ka"
    using wf_lookup [OF assms] by (metis option.sel prod.collapse)
  then have "map (\<lambda>k. h ! the (map_of (items self) k)) (map name (filter P (map ((!) h) (map snd xs))))
           = filter P (map (\<lambda>(k, a). h ! a) xs)" if "set xs \<subseteq> set (items self)" for xs P
    using that by (induction xs) (auto)
  then show ?thesis by (simp add: fitted_instances_def)
qed

text \<open>
  Claim C1 says that \<open>unpack(pack())\<close> leaves every fitted value unchanged, scalar or
  per-curve. On the two-curve example it does not: after \<open>validate\<close>, \<open>pack\<close> yields
  \<open>[1, 3, 4]\<close>; unpacking that very vector succeeds and replaces the per-curve value
  \<open>[3, 4]\<close> of the fitted parameter \<open>d\<close> by the single number \<open>3\<close>.
\<close>

theorem unpack_pack_per_curve:
  "validate shared_params shared_store = Inr shared_valid \<and>
   pack shared_valid shared_store = Inr [1, 3, 4] \<and>
   fst (unpack shared_valid [1, 3, 4] shared_store) = Inr () \<and>
   value (shared_store ! 1) = PyList [3, 4] \<and>
   value (snd (unpack shared_valid [1, 3, 4] shared_store) ! 1) = Scalar 3"
  by (simp add: validate_def pack_def unpack_def shared_params_def shared_store_def shared_valid_def
        isinstance_list_obj_def set_value_def)

text \<open>
  Claim C2 says that \<open>curve_params(i)\<close> returns one number per declared parameter, a
  per-curve parameter contributing its entry at index \<open>i\<close>. On the two-curve example,
  whose parameter \<open>d\<close> is per-curve, \<open>curve_params\<close> raises \<open>NameError\<close> for either
  curve index instead of returning a mapping.
\<close>

theorem curve_params_per_curve:
  "value (shared_store ! 1) = PyList [3, 4] \<and>
   curve_params shared_valid 0 shared_store = Inl (NameError ''i'') \<and>
   curve_params shared_valid 1 shared_store = Inl (NameError ''i'')"
  by (simp add: curve_params_def shared_params_def shared_store_def shared_valid_def)

text \<open>
  Claim C3, as stated: the elements of the packed vector appear in declaration order of
  the fitted parameters. The order is that of the dictionary, which under Python 2 is
  the order of the hash table. For the model that declares the scalar fitted parameters
  \<open>a\<close>, \<open>b\<close>, \<open>c\<close> with the values 1, 2 and 3, the constructor's container packs to
  \<open>[1, 3, 2]\<close>.
\<close>

theorem pack_declaration_order_counterexample:
  "map name (params abc_model) = [''a'', ''b'', ''c''] \<and>
   map def_value (params abc_model) = [Scalar 1, Scalar 2, Scalar 3] \<and>
   Parameters_init cpython2_order abc_model [line_curve] [] = (Inr abc_params, abc_store) \<and>
   validate abc_params abc_store = Inr abc_valid \<and>
   pack abc_valid abc_store = Inr [1, 3, 2]"
  by (simp add: abc_init abc_validate)
     (simp add: pack_def abc_model_def abc_valid_def abc_params_def abc_store_def)

text \<open>
  Claim C3, amended: for a well-formed container bound to \<open>n\<close> curves whose fitted
  per-curve values have \<open>n\<close> entries each, after \<open>validate\<close> the vector returned by
  \<open>pack\<close> is the concatenation, in the iteration order of the dictionary, of the values
  of the fitted parameters, a per-curve value contributing its entries in curve order;
  its length is the number of scalar fitted parameters plus \<open>n\<close> times the number of
  per-curve fitted parameters.
\<close>

theorem pack_length_and_order:
  assumes "wf_params self h" and "validate self h = Inr self'"
    and "list_all (\<lambda>p. shaped (length (curves self)) (value p)) (fitted_instances self h)"
  shows "\<exists>v. pack self' h = Inr v \<and>
           v = concat (map (\<lambda>p. flat (value p)) (fitted_instances self h)) \<and>
           length v = length (filter (\<lambda>p. \<not> is_list (value p)) (fitted_instances self h))
                      + length (curves self) * length (filter (\<lambda>p. is_list (value p)) (fitted_instances self h))"
proof -
  let ?ks = "map name (filter (\<lambda>p. scope p = Some ''fitted'') (map ((!) h) (map snd (items self))))"
  have ft: "fitted self' = Some ?ks" and it: "items self' = items self"
    using validate_fitted [OF assms(2)] by simp_all
  have dom: "\<forall>k \<in> set ?ks. \<exists>a. map_of (items self) k = Some a"
    using wf_lookup [OF assms(1)] by (auto; metis)
  have "pack self' h = Inr (concat (map (\<lambda>k. flat (value (h ! the (map_of (items self) k)))) ?ks))"
    using pack_loop_Inr [OF dom, of h "[]"] by (simp add: pack_def ft it)
  also have "concat (map (\<lambda>k. flat (value (h ! the (map_of (items self) k)))) ?ks)
      = concat (map (\<lambda>p. flat (value p)) (map (\<lambda>k. h ! the (map_of (items self) k)) ?ks))"
    by (simp add: comp_def)
  also have "\<dots> = concat (map (\<lambda>p. flat (value p)) (fitted_instances self h))"
    by (simp only: fitted_names_lookup [OF assms(1)])
  finally have "pack self' h = Inr (concat (map (\<lambda>p. flat (value p)) (fitted_instances self h)))" .
  then show ?thesis
    using length_concat_flat [OF assms(3)] by simp
qed

theorem pack_length_and_order_witness:
  "wf_params shared_params shared_store \<and>
   validate shared_params shared_store = Inr shared_valid \<and>
   list_all (\<lambda>p. shaped (length (curves shared_params)) (value p))
     (fitted_instances shared_params shared_store) \<and>
   pack shared_valid shared_store = Inr [1, 3, 4] \<and>
   length (filter (\<lambda>p. \<not> is_list (value p)) (fitted_instances shared_params shared_store)) = 1 \<and>
   length (filter (\<lambda>p. is_list (value p)) (fitted_instances shared_params shared_store)) = 1 \<and>
   length (curves shared_params) = 2"
proof -
  have sh: "list_all (\<lambda>p. shaped (length (curves shared_params)) (value p))
              (fitted_instances shared_params shared_store)"
    by (simp add: fitted_instances_def shared_params_def shared_store_def shaped_def)
  have fi: "concat (map (\<lambda>p. flat (value p)) (fitted_instances shared_params shared_store)) = [1, 3, 4]"
    by (simp add: fitted_instances_def shared_params_def shared_store_def)
  have cnt: "length (filter (\<lambda>p. \<not> is_list (value p)) (fitted_instances shared_params shared_store)) = 1"
    "length (filter (\<lambda>p. is_list (value p)) (fitted_instances shared_params shared_store)) = 1"
    "length (curves shared_params) = 2"
    by (simp_all add: fitted_instances_def shared_params_def shared_store_def)
  from pack_length_and_order [OF shared_wf shared_validate sh] fi
  have "pack shared_valid shared_store = Inr [1, 3, 4]" by auto
  with shared_wf shared_validate sh cnt show ?thesis by simp
qed

lemma validated_keys:
  assumes "wf_params self h" and "validate self h = Inr self'"
  shows "fitted self' = Some (fitted_keys self h)" and "items self' = items self"
    and "\<forall>k \<in> set (fitted_keys self h). \<exists>a. map_of (items self) k = Some a"
    and "length (fitted_keys self h) = length (fitted_instances self h)"
    and "map (\<lambda>k. h ! the (map_of (items self) k)) (fitted_keys self h) = fitted_instances self h"
proof -
  show "fitted self' = Some (fitted_keys self h)" and "items self' = items self"
    using validate_fitted [OF assms(2)] by (simp_all add: fitted_keys_def)
  show "\<forall>k \<in> set (fitted_keys self h). \<exists>a. map_of (items self) k = Some a"
  proof
    fix k assume "k \<in> set (fitted_keys self h)"
    then obtain ka where ka: "ka \<in> set (items self)" and k: "k = name (h ! snd ka)"
      by (auto simp: fitted_keys_def)
    from ka have "(fst ka, snd ka) \<in> set (items self)" by simp
    from wf_lookup(1,2) [OF assms(1) this] k show "\<exists>a. map_of (items self) k = Some a"
      by simp
  qed
  show look: "map (\<lambda>k. h ! the (map_of (items self) k)) (fitted_keys self h) = fitted_instances self h"
    unfolding fitted_keys_def by (rule fitted_names_lookup [OF assms(1)])
  show "length (fitted_keys self h) = length (fitted_instances self h)"
    using arg_cong [OF look, of length] by simp
qed

lemma pack_validated:
  assumes "wf_params self h" and "validate self h = Inr self'"
  shows "pack self' h = Inr (concat (map (\<lambda>p. flat (value p)) (fitted_instances self h)))"
proof -
  define ks where "ks = fitted_keys self h"
  note ks = validated_keys(1,2,3,5) [OF assms, folded ks_def]
  have "pack self' h = Inr (concat (map (\<lambda>k. flat (value (h ! the (map_of (items self) k)))) ks))"
    using pack_loop_Inr [OF ks(3), of h "[]"] by (simp add: pack_def ks(1,2))
  also have "concat (map (\<lambda>k. flat (value (h ! the (map_of (items self) k)))) ks)
      = concat (map (\<lambda>p. flat (value p)) (map (\<lambda>k. h ! the (map_of (items self) k)) ks))"
    by (simp add: comp_def)
  finally show ?thesis by (simp only: ks(4))
qed

lemma length_concat_scalars:
  assumes "list_all (\<lambda>p. \<not> is_list (value p)) ps"
  shows "length (concat (map (\<lambda>p. flat (value p)) ps)) = length ps"
  using assms
proof (induction ps)
  case Nil
  then show ?case by simp
next
  case (Cons p ps)
  then show ?case by (cases "value p") auto
qed

lemma unpack_loop_result:
  assumes "\<forall>k \<in> set ks. \<exists>a. map_of d k = Some a" and "i \<le> length packed"
  shows "fst (unpack_loop n packed d ks i h)
           = (if i + length ks \<le> length packed then Inr () else Inl IndexError)"
  using assms
proof (induction ks arbitrary: i h)
  case Nil
  then show ?case by simp
next
  case (Cons k ks)
  then obtain a where a: "map_of d k = Some a" by auto
  have rest: "\<forall>k \<in> set ks. \<exists>a. map_of d k = Some a" using Cons.prems by simp
  show ?case
  proof (cases "i < length packed")
    case True
    with a Cons.IH [OF rest, of "i + 1"] show ?thesis
      by (simp add: isinstance_list_obj_def)
  next
    case False
    with a Cons.prems(2) show ?thesis by (simp add: isinstance_list_obj_def)
  qed
qed

lemma unpack_loop_take:
  assumes "\<forall>k \<in> set ks. \<exists>a. map_of d k = Some a" and "i + length ks \<le> m"
  shows "unpack_loop n (take m packed) d ks i h = unpack_loop n packed d ks i h"
  using assms
proof (induction ks arbitrary: i h)
  case Nil
  then show ?case by simp
next
  case (Cons k ks)
  then obtain a where a: "map_of d k = Some a" by auto
  have rest: "\<forall>k \<in> set ks. \<exists>a. map_of d k = Some a" using Cons.prems by simp
  have im: "i < m" and nxt: "(i + 1) + length ks \<le> m" using Cons.prems(2) by simp_all
  from im have lt: "i < length (take m packed) \<longleftrightarrow> i < length packed" by simp
  from im have nth: "take m packed ! i = packed ! i" by simp
  show ?case
    using a Cons.IH [OF rest nxt] lt nth by (simp add: isinstance_list_obj_def)
qed

text \<open>
  Claim C6, as stated: a vector longer than the one \<open>pack\<close> produces makes \<open>unpack\<close>
  fail. On the one-curve example \<open>pack\<close> yields a vector of length one; unpacking a vector
  of length two succeeds and has the effect of unpacking its first element alone.
\<close>

theorem unpack_oversized_counterexample:
  "pack line_valid line_store = Inr [1] \<and>
   fst (unpack line_valid [1, 9] line_store) = Inr () \<and>
   snd (unpack line_valid [1, 9] line_store) = snd (unpack line_valid [1] line_store)"
  by (simp add: pack_def unpack_def line_valid_def line_params_def line_store_def
        isinstance_list_obj_def set_value_def)

text \<open>
  Claim C6, amended: for a validated well-formed container whose fitted parameters are
  all scalar, \<open>unpack\<close> raises \<open>IndexError\<close> exactly when the vector is shorter than the
  one \<open>pack\<close> produces; a vector at least that long is accepted, and the elements beyond
  that length are ignored.
\<close>

theorem unpack_length_scalar:
  assumes "wf_params self h" and "validate self h = Inr self'"
    and "list_all (\<lambda>p. \<not> is_list (value p)) (fitted_instances self h)"
    and "pack self' h = Inr v"
  shows "(fst (unpack self' w h) = Inl IndexError \<longleftrightarrow> length w < length v) \<and>
         (fst (unpack self' w h) = Inr () \<longleftrightarrow> length v \<le> length w) \<and>
         unpack self' (take (length v) w) h = unpack self' w h"
proof -
  define ks where "ks = fitted_keys self h"
  note ks = validated_keys(1,2,3,4) [OF assms(1,2), folded ks_def]
  have "v = concat (map (\<lambda>p. flat (value p)) (fitted_instances self h))"
    using pack_validated [OF assms(1,2)] assms(4) by simp
  then have len: "length v = length ks"
    using length_concat_scalars [OF assms(3)] ks(4) by simp
  have res: "fst (unpack self' w h) = (if length ks \<le> length w then Inr () else Inl IndexError)"
    using unpack_loop_result [OF ks(3), of 0 w "length (curves self')" h]
    by (simp add: unpack_def ks(1,2))
  have tk: "unpack self' (take (length v) w) h = unpack self' w h"
    using unpack_loop_take [OF ks(3), of 0 "length v" "length (curves self')" w h] len
    by (simp add: unpack_def ks(1,2))
  from res len tk show ?thesis by auto
qed

theorem unpack_length_scalar_witness:
  "wf_params line_params line_store \<and> validate line_params line_store = Inr line_valid \<and>
   list_all (\<lambda>p. \<not> is_list (value p)) (fitted_instances line_params line_store) \<and>
   pack line_valid line_store = Inr [1] \<and>
   fst (unpack line_valid [] line_store) = Inl IndexError \<and>
   fst (unpack line_valid [2, 9] line_store) = Inr () \<and>
   unpack line_valid (take 1 [2, 9]) line_store = unpack line_valid [2, 9] line_store"
proof -
  have sc: "list_all (\<lambda>p. \<not> is_list (value p)) (fitted_instances line_params line_store)"
    by (simp add: fitted_instances_def line_params_def line_store_def)
  have pk: "pack line_valid line_store = Inr [1]"
    by (simp add: pack_def line_valid_def line_params_def line_store_def)
  from unpack_length_scalar [OF line_wf line_validate sc pk, of "[]"]
  have a: "fst (unpack line_valid [] line_store) = Inl IndexError" by simp
  from unpack_length_scalar [OF line_wf line_validate sc pk, of "[2, 9]"]
  have b: "fst (unpack line_valid [2, 9] line_store) = Inr ()"
    and c: "unpack line_valid (take 1 [2, 9]) line_store = unpack line_valid [2, 9] line_store"
    by simp_all
  from line_wf line_validate sc pk a b c show ?thesis by simp
qed


section \<open>Which objects the fit driver writes\<close>

lemma frame_refl: "frame W h h"
  by (simp add: frame_def)

lemma frame_trans: "frame W h h' \<Longrightarrow> frame W h' h'' \<Longrightarrow> frame W h h''"
  by (simp add: frame_def)

lemma frame_set_value: "a \<in> W \<Longrightarrow> frame W h (set_value a v h)"
  by (auto simp: frame_def set_value_def intro!: nth_list_update_neq)

lemma unpack_loop_frame:
  "unpack_loop n packed d ks i h = (r, h') \<Longrightarrow> frame (written d ks) h h'"
proof (induction ks arbitrary: i h)
  case Nil
  then show ?case by (simp add: frame_refl)
next
  case (Cons k ks)
  have sub: "frame (written d ks) x y \<Longrightarrow> frame (written d (k # ks)) x y" for x y
    by (auto simp: frame_def written_def)
  show ?case
  proof (cases "map_of d k")
    case None
    with Cons.prems show ?thesis by (simp add: frame_refl)
  next
    case (Some a)
    then have aw: "a \<in> written d (k # ks)" by (simp add: written_def)
    show ?thesis
    proof (cases "i < length packed")
      case True
      with Some Cons.prems
      have "unpack_loop n packed d ks (i + 1) (set_value a (Scalar (packed ! i)) h) = (r, h')"
        by (simp add: isinstance_list_obj_def)
      from sub [OF Cons.IH [OF this]] frame_set_value [OF aw] show ?thesis
        by (blast intro: frame_trans)
    next
      case False
      with Some Cons.prems show ?thesis by (simp add: isinstance_list_obj_def frame_refl)
    qed
  qed
qed

lemma unpack_frame: "unpack ps p h = (r, h') \<Longrightarrow> frame (targets ps) h h'"
  by (cases "fitted ps") (auto simp: unpack_def targets_def frame_refl dest: unpack_loop_frame)

lemma compute_error_frame: "compute_error p cs ps m h = (r, h') \<Longrightarrow> frame (targets ps) h h'"
  by (auto simp: compute_error_def split: prod.splits sum.splits dest: unpack_frame)

lemma run_solver_frame:
  assumes "\<And>x h r h'. f x h = (r, h') \<Longrightarrow> frame W h h'"
  shows "run_solver s f h = (r, h') \<Longrightarrow> frame W h h'"
proof (induction s arbitrary: h)
  case (Return p c)
  then show ?case by (simp add: frame_refl)
next
  case (Raise e)
  then show ?case by (simp add: frame_refl)
next
  case (Call x k)
  obtain r1 h1 where f: "f x h = (r1, h1)" by (cases "f x h")
  show ?case
  proof (cases r1)
    case (Inl e)
    with f Call.prems assms [OF f] show ?thesis by simp
  next
    case (Inr res)
    with f Call.prems have "run_solver (k res) f h1 = (r, h')" by simp
    from Call.IH [OF _ this] assms [OF f] show ?thesis
      by (blast intro: frame_trans)
  qed
qed

lemma deepcopy_items_fresh:
  assumes "deepcopy_items kas memo d h = (d', h')"
    and "\<forall>a' \<in> snd ` set memo. n0 \<le> a'" and "\<forall>a' \<in> snd ` set d. n0 \<le> a'" and "n0 \<le> length h"
  shows "(\<forall>a' \<in> snd ` set d'. n0 \<le> a') \<and> take n0 h' = take n0 h"
  using assms
proof (induction kas arbitrary: memo d h)
  case Nil
  then show ?case by simp
next
  case (Cons ka kas)
  obtain k a where ka: "ka = (k, a)" by (cases ka)
  show ?case
  proof (cases "map_of memo a")
    case (Some a')
    then have "(a, a') \<in> set memo" by (rule map_of_SomeD)
    then have "n0 \<le> a'" using Cons.prems(2) by force
    then have d: "\<forall>x \<in> snd ` set (d @ [(k, a')]). n0 \<le> x" using Cons.prems(3) by auto
    from Cons.prems(1) ka Some have "deepcopy_items kas memo (d @ [(k, a')]) h = (d', h')" by simp
    from Cons.IH [OF this Cons.prems(2) d Cons.prems(4)] show ?thesis .
  next
    case None
    have m: "\<forall>x \<in> snd ` set ((a, length h) # memo). n0 \<le> x" using Cons.prems(2,4) by auto
    have d: "\<forall>x \<in> snd ` set (d @ [(k, length h)]). n0 \<le> x" using Cons.prems(3,4) by auto
    have l: "n0 \<le> length (h @ [h ! a])" using Cons.prems(4) by simp
    from Cons.prems(1) ka None
    have "deepcopy_items kas ((a, length h) # memo) (d @ [(k, length h)]) (h @ [h ! a]) = (d', h')"
      by simp
    from Cons.IH [OF this m d l] Cons.prems(4) show ?thesis by simp
  qed
qed

lemma deepcopy_fresh:
  assumes "deepcopy ord c h0 g0 = (c1, h1, g1)"
  shows "c1 = length g0" and "\<exists>ps1. g1 = g0 @ [ps1]"
    and "\<forall>a \<in> snd ` set (items (g1 ! c1)). length h0 \<le> a" and "take (length h0) h1 = h0"
    and "curves (g1 ! c1) = curves (g0 ! c)"
proof -
  obtain d h' where dh: "deepcopy_items (items (g0 ! c)) [] [] h0 = (d, h')"
    by (cases "deepcopy_items (items (g0 ! c)) [] [] h0")
  with assms have eq: "c1 = length g0" "h1 = h'" "g1 = g0 @ [(g0 ! c)\<lparr>items := in_order ord d\<rparr>]"
    by (simp_all add: deepcopy_def)
  from eq show "c1 = length g0" and "\<exists>ps1. g1 = g0 @ [ps1]" by simp_all
  from eq have it: "items (g1 ! c1) = in_order ord d" by simp
  from deepcopy_items_fresh [OF dh, of "length h0"] eq(2)
  have "\<forall>a \<in> snd ` set d. length h0 \<le> a" and "take (length h0) h1 = h0" by simp_all
  then show "\<forall>a \<in> snd ` set (items (g1 ! c1)). length h0 \<le> a" and "take (length h0) h1 = h0"
    using in_order_subset [of ord d] it by auto
  from eq show "curves (g1 ! c1) = curves (g0 ! c)" by simp
qed

lemma validate_obj_of_validate:
  "validate (g ! c) h = Inr ps \<Longrightarrow> validate_obj c h g = (Inr (), g[c := ps])"
  "validate (g ! c) h = Inl e \<Longrightarrow> \<exists>ps. validate_obj c h g = (Inl e, g[c := ps])"
  by (auto simp: validate_def validate_obj_def split: prod.splits option.splits)

lemma frame_take:
  assumes "frame W h h'" and "\<forall>a \<in> W. n \<le> a"
  shows "take n h' = take n h"
proof (rule nth_equalityI)
  show "length (take n h') = length (take n h)" using assms(1) by (simp add: frame_def)
next
  fix i assume "i < length (take n h')"
  then have "i < n" by simp
  then have "i \<notin> W" using assms(2) by auto
  then have "h' ! i = h ! i" using assms(1) by (simp add: frame_def)
  then show "take n h' ! i = take n h ! i" using \<open>i < n\<close> by simp
qed

lemma targets_validated:
  assumes "validate ps1 h1 = Inr ps"
  shows "targets ps = written (items ps1) (fitted_keys ps1 h1)"
  using validate_fitted(1,2) [OF assms] by (simp add: targets_def fitted_keys_def)

lemma written_subset: "written d ks \<subseteq> snd ` set d"
  by (force simp: written_def dest: map_of_SomeD)

text \<open>
  The driver, case by case: once the copy is made, \<open>fit\<close> proceeds as a function of the
  copy's attributes, and leaves the store of containers extended by the copy.
\<close>

lemma fit_invalid:
  assumes "deepcopy ord c h0 g0 = (c1, h1, g1)" and "validate (g1 ! c1) h1 = Inl e"
  shows "\<exists>ps. fit ord leastsq cs m c h0 g0 = (Inl e, h1, g0 @ [ps])"
proof -
  from deepcopy_fresh(1,2) [OF assms(1)] obtain ps1 where c1: "c1 = length g0" and g1: "g1 = g0 @ [ps1]"
    by blast
  from validate_obj_of_validate(2) [OF assms(2)] obtain ps
    where "validate_obj c1 h1 g1 = (Inl e, g1[c1 := ps])" by blast
  moreover have "g1[c1 := ps] = g0 @ [ps]" by (simp add: c1 g1)
  ultimately show ?thesis using assms(1) by (auto simp: fit_def)
qed

lemma fit_validated:
  assumes "deepcopy ord c h0 g0 = (c1, h1, g1)" and "validate (g1 ! c1) h1 = Inr ps"
  shows "fit ord leastsq cs m c h0 g0 =
     (case pack ps h1 of
        Inl e \<Rightarrow> (Inl e, h1, g0 @ [ps])
      | Inr p0 \<Rightarrow>
          (case run_solver (leastsq p0) (\<lambda>p. compute_error p cs ps m) h1 of
             (Inl e, h2) \<Rightarrow> (Inl e, h2, g0 @ [ps])
           | (Inr (p, cov_x), h2) \<Rightarrow>
               if cov_x = None
               then (Inl (RuntimeError ''Fit failed to converge (flat axis)''), h2, g0 @ [ps])
               else (case unpack ps p h2 of
                       (Inl e, h3) \<Rightarrow> (Inl e, h3, g0 @ [ps])
                     | (Inr u, h3) \<Rightarrow> (Inr c1, h3, g0 @ [ps]))))"
proof -
  from deepcopy_fresh(1,2) [OF assms(1)] obtain ps1 where c1: "c1 = length g0" and g1: "g1 = g0 @ [ps1]"
    by blast
  have g2: "g1[c1 := ps] = g0 @ [ps]" by (simp add: c1 g1)
  have nth: "(g0 @ [ps]) ! c1 = ps" by (simp add: c1)
  show ?thesis
    using assms(1) validate_obj_of_validate(1) [OF assms(2)]
    by (auto simp: fit_def g2 nth split: sum.splits prod.splits)
qed

lemma fit_frame:
  assumes "deepcopy ord c h0 g0 = (c1, h1, g1)" and "fit ord leastsq cs m c h0 g0 = (r, h, g)"
  shows "frame (written (items (g1 ! c1)) (fitted_keys (g1 ! c1) h1)) h1 h"
    and "\<exists>ps. g = g0 @ [ps]"
    and "r = Inr c' \<Longrightarrow> c' = c1 \<and> validate (g1 ! c1) h1 = Inr (g ! c1)"
    and "r = Inr c' \<Longrightarrow> \<exists>p0 p cov h2.
           pack (g ! c1) h1 = Inr p0 \<and>
           run_solver (leastsq p0) (\<lambda>p. compute_error p cs (g ! c1) m) h1 = (Inr (p, Some cov), h2) \<and>
           unpack (g ! c1) p h2 = (Inr (), h)"
proof -
  let ?W = "written (items (g1 ! c1)) (fitted_keys (g1 ! c1) h1)"
  let ?run = "\<lambda>ps. \<exists>p0 p cov h2.
           pack ps h1 = Inr p0 \<and>
           run_solver (leastsq p0) (\<lambda>p. compute_error p cs ps m) h1 = (Inr (p, Some cov), h2) \<and>
           unpack ps p h2 = (Inr (), h)"
  have c1: "c1 = length g0" by (rule deepcopy_fresh(1) [OF assms(1)])
  have "frame ?W h1 h \<and> (\<exists>ps. g = g0 @ [ps]) \<and>
        (r = Inr c' \<longrightarrow> c' = c1 \<and> validate (g1 ! c1) h1 = Inr (g ! c1) \<and> ?run (g ! c1))"
  proof (cases "validate (g1 ! c1) h1")
    case (Inl e)
    from fit_invalid [OF assms(1) Inl, of leastsq cs m] assms(2) show ?thesis
      by (auto simp: frame_refl)
  next
    case (Inr psv)
    note W = targets_validated [OF Inr]
    note ft = fit_validated [OF assms(1) Inr, of leastsq cs m]
    have nth: "(g0 @ [psv]) ! c1 = psv" by (simp add: c1)
    show ?thesis
    proof (cases "pack psv h1")
      case (Inl e)
      with ft assms(2) show ?thesis by (auto simp: frame_refl)
    next
      case p0: (Inr p0)
      obtain r2 h2 where rs: "run_solver (leastsq p0) (\<lambda>p. compute_error p cs psv m) h1 = (r2, h2)"
        by (cases "run_solver (leastsq p0) (\<lambda>p. compute_error p cs psv m) h1")
      have f2: "frame ?W h1 h2"
        using run_solver_frame [OF _ rs, of ?W] compute_error_frame [of _ cs psv m] W by simp
      show ?thesis
      proof (cases r2)
        case (Inl e)
        with p0 rs ft assms(2) f2 show ?thesis by auto
      next
        case res: (Inr res)
        obtain p cov_x where pc: "res = (p, cov_x)" by (cases res)
        show ?thesis
        proof (cases cov_x)
          case None
          with p0 rs res pc ft assms(2) f2 show ?thesis by auto
        next
          case (Some cov)
          obtain r3 h3 where u: "unpack psv p h2 = (r3, h3)" by (cases "unpack psv p h2")
          have f3: "frame ?W h2 h3" using unpack_frame [OF u] W by simp
          have f13: "frame ?W h1 h3" using f2 f3 by (rule frame_trans)
          show ?thesis
          proof (cases r3)
            case (Inl e)
            with p0 rs res pc ft assms(2) Some u f13 show ?thesis by auto
          next
            case (Inr x)
            with p0 rs res pc ft assms(2) Some u
            have eq: "r = Inr c1" "h = h3" "g = g0 @ [psv]" by auto
            have "?run psv"
              using p0 rs res pc Some u Inr eq(2) by auto
            with eq f13 nth \<open>validate (g1 ! c1) h1 = Inr psv\<close> show ?thesis by auto
          qed
        qed
      qed
    qed
  qed
  then show "frame ?W h1 h" and "\<exists>ps. g = g0 @ [ps]"
    and "r = Inr c' \<Longrightarrow> c' = c1 \<and> validate (g1 ! c1) h1 = Inr (g ! c1)"
    and "r = Inr c' \<Longrightarrow> ?run (g ! c1)"
    by simp_all
qed

lemma shared_deepcopy:
  "deepcopy cpython2_order 0 shared_store [shared_params] = (1, shared_copy_store, [shared_params, shared_copy])"
  by (simp add: deepcopy_def shared_copy_def shared_copy_store_def shared_params_def shared_store_def
        in_order_def order_kbd List.map_filter_simps)

lemma shared_copy_validate:
  "validate shared_copy shared_copy_store = Inr shared_fitted"
  by (simp add: validate_def shared_copy_def shared_copy_store_def shared_fitted_def shared_valid_def
        shared_params_def shared_store_def)

lemma shared_copy_pack:
  "pack shared_fitted shared_copy_store = Inr [1, 3, 4]"
  by (simp add: pack_def shared_fitted_def shared_copy_store_def shared_valid_def shared_params_def
        shared_store_def)

lemma shared_run:
  "run_solver (shared_solver [1, 3, 4])
     (\<lambda>p. compute_error p [curve1, curve2] shared_fitted shared_model) shared_copy_store
     = (Inr ([2, 3, 4], Some [[1]]), shared_store @ [shared_store ! 0, shared_store ! 2,
                                                    (shared_store ! 1)\<lparr>value := Scalar 3\<rparr>])"
  by (simp add: shared_solver_def compute_error_def unpack_def curve_params_def np_broadcast_def
        shared_fitted_def shared_copy_store_def shared_valid_def shared_params_def shared_store_def
        shared_model_def curve1_def curve2_def isinstance_list_obj_def set_value_def enumerate_eq_zip)

lemma shared_fit:
  "fit cpython2_order shared_solver [curve1, curve2] shared_model 0 shared_store [shared_params]
     = (Inr 1, shared_fitted_store, [shared_params, shared_fitted])"
  by (simp add: fit_validated [OF shared_deepcopy] shared_copy_validate shared_copy_pack shared_run)
     (simp add: unpack_def shared_fitted_def shared_fitted_store_def shared_valid_def
        shared_params_def shared_store_def isinstance_list_obj_def set_value_def)


section \<open>The deep copy of a well-formed container\<close>

lemma deepcopy_items_distinct:
  assumes "distinct (map snd kas)" and "\<forall>a \<in> set (map snd kas). map_of memo a = None"
    and "\<forall>a \<in> set (map snd kas). a < length h"
  shows "deepcopy_items kas memo d h
           = (d @ zip (map fst kas) [length h..<length h + length kas], h @ map ((!) h) (map snd kas))"
  using assms
proof (induction kas arbitrary: memo d h)
  case Nil
  then show ?case by simp
next
  case (Cons ka kas)
  obtain k a where ka: "ka = (k, a)" by (cases ka)
  have none: "map_of memo a = None" using Cons.prems(2) ka by simp
  have d: "distinct (map snd kas)" using Cons.prems(1) by simp
  have m: "\<forall>x \<in> set (map snd kas). map_of ((a, length h) # memo) x = None"
    using Cons.prems(1,2) ka by auto
  have l: "\<forall>x \<in> set (map snd kas). x < length (h @ [h ! a])"
    using Cons.prems(3) by auto
  have same: "map ((!) (h @ [h ! a])) (map snd kas) = map ((!) h) (map snd kas)"
    using Cons.prems(3) by (auto simp: nth_append)
  have upt: "[length h..<length h + length (ka # kas)] = length h # [Suc (length h)..<Suc (length h) + length kas]"
    using upt_conv_Cons [of "length h" "length h + length (ka # kas)"] by simp
  have "deepcopy_items (ka # kas) memo d h
          = deepcopy_items kas ((a, length h) # memo) (d @ [(k, length h)]) (h @ [h ! a])"
    using ka none by simp
  also have "\<dots> = ((d @ [(k, length h)]) @ zip (map fst kas) [Suc (length h)..<Suc (length h) + length kas],
                    (h @ [h ! a]) @ map ((!) h) (map snd kas))"
    using Cons.IH [OF d m l, of "d @ [(k, length h)]"] same by simp
  finally show ?case using ka upt by simp
qed

lemma deepcopy_wf:
  assumes "wf_params (g0 ! c) h0" and "deepcopy ord c h0 g0 = (c1, h1, g1)"
  shows "g1 ! c1 = (g0 ! c)\<lparr>items := in_order ord
           (zip (map fst (items (g0 ! c))) [length h0..<length h0 + length (items (g0 ! c))])\<rparr>"
    and "h1 = h0 @ map ((!) h0) (map snd (items (g0 ! c)))"
proof -
  have "deepcopy_items (items (g0 ! c)) [] [] h0
          = ([] @ zip (map fst (items (g0 ! c))) [length h0..<length h0 + length (items (g0 ! c))],
             h0 @ map ((!) h0) (map snd (items (g0 ! c))))"
    using assms(1) by (intro deepcopy_items_distinct) (auto simp: wf_params_def list_all_iff)
  with assms(2) show "g1 ! c1 = (g0 ! c)\<lparr>items := in_order ord
           (zip (map fst (items (g0 ! c))) [length h0..<length h0 + length (items (g0 ! c))])\<rparr>"
    and "h1 = h0 @ map ((!) h0) (map snd (items (g0 ! c)))"
    by (auto simp: deepcopy_def)
qed

text \<open>The new dictionary before its iteration order is taken: key \<open>j\<close> at address \<open>length h0 + j\<close>.\<close>

lemma copied_items_wf:
  assumes "wf_params ps0 h0"
  shows "wf_params (ps0\<lparr>items := zip (map fst (items ps0)) [length h0..<length h0 + length (items ps0)]\<rparr>)
           (h0 @ map ((!) h0) (map snd (items ps0)))"
proof -
  let ?d = "zip (map fst (items ps0)) [length h0..<length h0 + length (items ps0)]"
  let ?h = "h0 @ map ((!) h0) (map snd (items ps0))"
  have k: "map fst ?d = map fst (items ps0)" by simp
  have a: "map snd ?d = [length h0..<length h0 + length (items ps0)]" by simp
  have "list_all (\<lambda>(k, a). a < length ?h \<and> name (?h ! a) = k) ?d"
    unfolding list_all_length
  proof (intro allI impI)
    fix j assume "j < length ?d"
    then have j: "j < length (items ps0)" by simp
    then have "(fst (items ps0 ! j), snd (items ps0 ! j)) \<in> set (items ps0)" by simp
    from wf_lookup(2) [OF assms this] j
    show "case ?d ! j of (k, a) \<Rightarrow> a < length ?h \<and> name (?h ! a) = k"
      by (simp add: nth_append)
  qed
  with k a assms show ?thesis by (simp add: wf_params_def)
qed

lemma deepcopy_preserves_wf:
  assumes "wf_params (g0 ! c) h0" and "permutes ord (map fst (items (g0 ! c)))"
    and "deepcopy ord c h0 g0 = (c1, h1, g1)"
  shows "wf_params (g1 ! c1) h1"
proof -
  note dc = deepcopy_wf [OF assms(1,3)]
  have "permutes ord (map fst (zip (map fst (items (g0 ! c))) [length h0..<length h0 + length (items (g0 ! c))]))"
    using assms(2) by simp
  from wf_in_order [OF copied_items_wf [OF assms(1)] this] show ?thesis
    by (simp add: dc)
qed

lemma deepcopy_entry:
  assumes "wf_params (g0 ! c) h0" and "permutes ord (map fst (items (g0 ! c)))"
    and "deepcopy ord c h0 g0 = (c1, h1, g1)" and "(k, a0) \<in> set (items (g0 ! c))"
  shows "\<exists>a. (k, a) \<in> set (items (g1 ! c1)) \<and> h1 ! a = h0 ! a0"
proof -
  let ?its = "items (g0 ! c)"
  let ?d = "zip (map fst ?its) [length h0..<length h0 + length ?its]"
  note dc = deepcopy_wf [OF assms(1,3)]
  from assms(4) obtain j where j: "j < length ?its" "?its ! j = (k, a0)"
    by (auto simp: in_set_conv_nth)
  then have "?d ! j = (k, length h0 + j)" by simp
  moreover have "j < length ?d" using j(1) by simp
  ultimately have mem: "(k, length h0 + j) \<in> set ?d" by (metis nth_mem)
  have dk: "distinct (map fst ?d)" using assms(1) by (simp add: wf_params_def)
  have pk: "permutes ord (map fst ?d)" using assms(2) by simp
  have "set (items (g1 ! c1)) = set ?d"
    using in_order_permutes(3) [OF dk pk] by (simp add: dc(1))
  with mem have "(k, length h0 + j) \<in> set (items (g1 ! c1))" by simp
  moreover have "h1 ! (length h0 + j) = h0 ! a0"
    using j by (simp add: dc(2) nth_append)
  ultimately show ?thesis by blast
qed

lemma deepcopy_entry_rev:
  assumes "wf_params (g0 ! c) h0" and "deepcopy ord c h0 g0 = (c1, h1, g1)"
    and "(k, a) \<in> set (items (g1 ! c1))"
  shows "\<exists>a0. (k, a0) \<in> set (items (g0 ! c)) \<and> h1 ! a = h0 ! a0"
proof -
  let ?its = "items (g0 ! c)"
  let ?d = "zip (map fst ?its) [length h0..<length h0 + length ?its]"
  note dc = deepcopy_wf [OF assms(1,2)]
  from assms(3) have "(k, a) \<in> set ?d"
    using in_order_subset [of ord ?d] by (auto simp: dc(1))
  then obtain j where j: "j < length ?its" "?d ! j = (k, a)"
    by (auto simp: in_set_conv_nth)
  then have k: "fst (?its ! j) = k" and a: "a = length h0 + j" by simp_all
  from j(1) have "(fst (?its ! j), snd (?its ! j)) \<in> set ?its" by simp
  moreover have "h1 ! a = h0 ! snd (?its ! j)"
    using j(1) a by (simp add: dc(2) nth_append)
  ultimately show ?thesis using k by blast
qed

lemma written_fitted_keys:
  assumes "wf_params self h" and "(k, a) \<in> set (items self)"
    and "a \<in> written (items self) (fitted_keys self h)"
  shows "scope (h ! a) = Some ''fitted''"
proof -
  from assms(3) obtain k' where k': "k' \<in> set (fitted_keys self h)" "map_of (items self) k' = Some a"
    by (auto simp: written_def)
  from k'(1) obtain ka where ka: "ka \<in> set (items self)" "scope (h ! snd ka) = Some ''fitted''"
    "k' = name (h ! snd ka)"
    by (auto simp: fitted_keys_def)
  from ka(1) have "(fst ka, snd ka) \<in> set (items self)" by simp
  from wf_lookup(1,2) [OF assms(1) this] ka(3) k'(2) have "snd ka = a" by simp
  with ka(2) show ?thesis by simp
qed

section \<open>Fixed parameters\<close>

text \<open>
  Claim C4: whatever the solver does, if \<open>fit\<close> returns a container, then every
  parameter whose scope is \<open>fixed\<close> in the input is filed in the returned container
  under the same name, is still \<open>fixed\<close>, and has the value it had in the input. The
  input is the container at the caller's address, well formed, and the interpreter's
  iteration order visits each of its keys once.
\<close>

theorem fit_keeps_fixed:
  assumes "wf_params (g0 ! c) h0" and "permutes ord (map fst (items (g0 ! c)))"
    and "fit ord leastsq cs m c h0 g0 = (Inr c', h, g)"
    and "(k, a0) \<in> set (items (g0 ! c))" and "scope (h0 ! a0) = Some ''fixed''"
  shows "\<exists>a. map_of (items (g ! c')) k = Some a \<and> scope (h ! a) = Some ''fixed'' \<and>
             value (h ! a) = value (h0 ! a0)"
proof -
  obtain c1 h1 g1 where dc: "deepcopy ord c h0 g0 = (c1, h1, g1)" by (cases "deepcopy ord c h0 g0")
  note wf1 = deepcopy_preserves_wf [OF assms(1,2) dc]
  from deepcopy_entry [OF assms(1,2) dc assms(4)] obtain a
    where mem: "(k, a) \<in> set (items (g1 ! c1))" and obj: "h1 ! a = h0 ! a0" by blast
  have notw: "a \<notin> written (items (g1 ! c1)) (fitted_keys (g1 ! c1) h1)"
    using written_fitted_keys [OF wf1 mem] obj assms(5) by auto
  from fit_frame(1) [OF dc assms(3)] notw have "h ! a = h1 ! a"
    by (simp add: frame_def)
  with obj have same: "h ! a = h0 ! a0" by simp
  from fit_frame(3) [OF dc assms(3)] have c': "c' = c1" and "validate (g1 ! c1) h1 = Inr (g ! c1)"
    by simp_all
  then have "items (g ! c') = items (g1 ! c1)"
    by (simp add: validate_fitted(2))
  with wf_lookup(1) [OF wf1 mem] have "map_of (items (g ! c')) k = Some a" by simp
  with same assms(5) show ?thesis by auto
qed

theorem fit_keeps_fixed_witness:
  "wf_params ([shared_params] ! 0) shared_store \<and>
   permutes cpython2_order (map fst (items ([shared_params] ! 0))) \<and>
   fit cpython2_order shared_solver [curve1, curve2] shared_model 0 shared_store [shared_params]
     = (Inr 1, shared_fitted_store, [shared_params, shared_fitted]) \<and>
   (''b'', 2) \<in> set (items ([shared_params] ! 0)) \<and> scope (shared_store ! 2) = Some ''fixed'' \<and>
   map_of (items ([shared_params, shared_fitted] ! 1)) ''b'' = Some 4 \<and>
   scope (shared_fitted_store ! 4) = Some ''fixed'' \<and>
   value (shared_fitted_store ! 4) = Scalar 0"
proof -
  have wf: "wf_params ([shared_params] ! 0) shared_store" using shared_wf by simp
  have pm: "permutes cpython2_order (map fst (items ([shared_params] ! 0)))"
    by (simp add: permutes_def shared_params_def order_kbd)
  have mem: "(''b'', 2) \<in> set (items ([shared_params] ! 0))" by (simp add: shared_params_def)
  have sc: "scope (shared_store ! 2) = Some ''fixed''" by (simp add: shared_store_def)
  have v: "value (shared_store ! 2) = Scalar 0" by (simp add: shared_store_def)
  have b: "map_of (items ([shared_params, shared_fitted] ! 1)) ''b'' = Some 4"
    by (simp add: shared_fitted_def)
  from fit_keeps_fixed [OF wf pm shared_fit mem sc] b v
  have "scope (shared_fitted_store ! 4) = Some ''fixed'' \<and> value (shared_fitted_store ! 4) = Scalar 0"
    by auto
  with wf pm shared_fit mem sc b show ?thesis by simp
qed


section \<open>The fit driver works on a copy and returns the solver's result\<close>

lemma unpack_loop_values:
  assumes "\<forall>k \<in> set ks. \<exists>a. map_of d k = Some a \<and> a < length h"
    and "distinct ks" and "inj_on (\<lambda>k. the (map_of d k)) (set ks)"
    and "unpack_loop n packed d ks i h = (Inr (), h')"
  shows "map (\<lambda>k. value (h' ! the (map_of d k))) ks = map Scalar (take (length ks) (drop i packed))"
  using assms
proof (induction ks arbitrary: i h)
  case Nil
  then show ?case by simp
next
  case (Cons k ks)
  from Cons.prems(1) obtain a where a: "map_of d k = Some a" "a < length h" by auto
  have i: "i < length packed"
    using Cons.prems(4) a by (auto simp: isinstance_list_obj_def split: if_splits)
  let ?h = "set_value a (Scalar (packed ! i)) h"
  from Cons.prems(4) a i have run: "unpack_loop n packed d ks (i + 1) ?h = (Inr (), h')"
    by (simp add: isinstance_list_obj_def)
  have keys: "\<forall>k \<in> set ks. \<exists>a. map_of d k = Some a \<and> a < length ?h"
    using Cons.prems(1) by (simp add: set_value_def)
  have dk: "distinct ks" and inj: "inj_on (\<lambda>k. the (map_of d k)) (set ks)"
    using Cons.prems(2,3) by (simp_all add: inj_on_def)
  note IH = Cons.IH [OF keys dk inj run]
  have "a \<notin> written d ks"
  proof
    assume "a \<in> written d ks"
    then obtain k' where k': "k' \<in> set ks" "map_of d k' = Some a" by (auto simp: written_def)
    with a(1) Cons.prems(3) have "k' = k" by (auto simp: inj_on_def)
    with k'(1) Cons.prems(2) show False by simp
  qed
  with unpack_loop_frame [OF run] have "h' ! a = ?h ! a" by (simp add: frame_def)
  then have v: "value (h' ! a) = Scalar (packed ! i)" using a(2) by (simp add: set_value_def)
  have dr: "drop i packed = packed ! i # drop (Suc i) packed"
    using i by (simp add: Cons_nth_drop_Suc)
  from IH v a(1) dr show ?case by simp
qed

lemma concat_flat_Scalar: "concat (map (\<lambda>x. flat (Scalar x)) xs) = xs"
  by (induction xs) simp_all

lemma fitted_instances_copy_subset:
  assumes "wf_params (g0 ! c) h0" and "deepcopy ord c h0 g0 = (c1, h1, g1)"
  shows "set (fitted_instances (g1 ! c1) h1) \<subseteq> set (fitted_instances (g0 ! c) h0)"
proof
  fix q assume "q \<in> set (fitted_instances (g1 ! c1) h1)"
  then obtain k a where ka: "(k, a) \<in> set (items (g1 ! c1))" and q: "q = h1 ! a"
    and sc: "scope q = Some ''fitted''"
    by (auto simp: fitted_instances_def)
  from deepcopy_entry_rev [OF assms ka] obtain a0
    where "(k, a0) \<in> set (items (g0 ! c))" "h1 ! a = h0 ! a0" by blast
  with q sc show "q \<in> set (fitted_instances (g0 ! c) h0)"
    by (force simp: fitted_instances_def)
qed

text \<open>
  After a successful \<open>unpack\<close> of a vector \<open>p\<close> into a validated well-formed container,
  packing returns the elements of \<open>p\<close> that were consumed.
\<close>

lemma pack_after_unpack:
  assumes "wf_params self h1" and "validate self h1 = Inr self'"
    and "length h2 = length h1" and "unpack self' p h2 = (Inr (), h)"
  shows "pack self' h = Inr (take (length (fitted_instances self h1)) p)"
proof -
  define ks where "ks = fitted_keys self h1"
  note ks = validated_keys [OF assms(1,2), folded ks_def]
  have run: "unpack_loop (length (curves self')) p (items self) ks 0 h2 = (Inr (), h)"
    using assms(4) by (simp add: unpack_def ks(1,2))
  have keys: "\<forall>k \<in> set ks. \<exists>a. map_of (items self) k = Some a \<and> a < length h2"
  proof
    fix k assume "k \<in> set ks"
    with ks(3) obtain a where a: "map_of (items self) k = Some a" by auto
    then have "(k, a) \<in> set (items self)" by (rule map_of_SomeD)
    from wf_lookup(3) [OF assms(1) this] a assms(3)
    show "\<exists>a. map_of (items self) k = Some a \<and> a < length h2" by simp
  qed
  have inj: "inj_on (\<lambda>k. the (map_of (items self) k)) (set ks)"
  proof (rule inj_onI)
    fix k k' assume "k \<in> set ks" "k' \<in> set ks"
      and eq: "the (map_of (items self) k) = the (map_of (items self) k')"
    with ks(3) obtain a a' where "map_of (items self) k = Some a" "map_of (items self) k' = Some a'"
      by blast
    with eq have "(k, a) \<in> set (items self)" "(k', a) \<in> set (items self)"
      by (auto dest: map_of_SomeD)
    moreover have "distinct (map snd (items self))" using assms(1) by (simp add: wf_params_def)
    ultimately show "k = k'" by (metis distinct_snd_key)
  qed
  have dk: "distinct ks"
  proof -
    have "ks = map fst (filter (\<lambda>(k, a). scope (h1 ! a) = Some ''fitted'') (items self))"
    proof -
      have "map name (filter P (map ((!) h1) (map snd xs))) = map fst (filter (\<lambda>(k, a). P (h1 ! a)) xs)"
        if "set xs \<subseteq> set (items self)" for xs P
        using that wf_lookup(2) [OF assms(1)] by (induction xs) auto
      then show ?thesis by (simp add: ks_def fitted_keys_def)
    qed
    moreover have "distinct (map fst (items self))" using assms(1) by (simp add: wf_params_def)
    ultimately show ?thesis by (simp add: distinct_map_filter)
  qed
  from unpack_loop_values [OF keys dk inj run]
  have vals: "map (\<lambda>k. value (h ! the (map_of (items self) k))) ks = map Scalar (take (length ks) p)"
    by simp
  have found: "\<forall>k \<in> set ks. \<exists>a. map_of (items self) k = Some a" using ks(3) .
  have "pack self' h = Inr (concat (map (\<lambda>k. flat (value (h ! the (map_of (items self) k)))) ks))"
    using pack_loop_Inr [OF found, of h "[]"] by (simp add: pack_def ks(1,2))
  also have "concat (map (\<lambda>k. flat (value (h ! the (map_of (items self) k)))) ks)
        = concat (map flat (map (\<lambda>k. value (h ! the (map_of (items self) k))) ks))"
    by (simp add: comp_def)
  also have "\<dots> = take (length ks) p"
    by (simp only: vals) (simp add: comp_def concat_flat_Scalar)
  finally show ?thesis by (simp add: ks(4))
qed


lemma line_deepcopy:
  "deepcopy cpython2_order 0 line_store [line_params] = (1, line_copy_store, [line_params, line_copy])"
  by (simp add: deepcopy_def line_copy_def line_copy_store_def line_params_def line_store_def
        in_order_def order_ab List.map_filter_simps)

lemma line_copy_validate: "validate line_copy line_copy_store = Inr line_fitted"
  by (simp add: validate_def line_copy_def line_copy_store_def line_fitted_def line_valid_def
        line_params_def line_store_def)

lemma line_copy_pack: "pack line_fitted line_copy_store = Inr [1]"
  by (simp add: pack_def line_fitted_def line_copy_store_def line_valid_def line_params_def
        line_store_def)

lemma line_run:
  "run_solver (line_solver [1]) (\<lambda>p. compute_error p [line_curve] line_fitted line_model) line_copy_store
     = (Inr ([2], Some [[1]]), line_copy_store)"
  by (simp add: line_solver_def compute_error_def unpack_def curve_params_def np_broadcast_def
        line_fitted_def line_copy_store_def line_valid_def line_params_def line_store_def
        line_model_def line_curve_def isinstance_list_obj_def set_value_def enumerate_eq_zip)

lemma line_fit:
  "fit cpython2_order line_solver [line_curve] line_model 0 line_store [line_params]
     = (Inr 1, line_fitted_store, [line_params, line_fitted])"
  by (simp add: fit_validated [OF line_deepcopy] line_copy_validate line_copy_pack line_run)
     (simp add: unpack_def line_fitted_def line_fitted_store_def line_copy_store_def line_valid_def
        line_params_def line_store_def isinstance_list_obj_def set_value_def)

text \<open>
  Claim C5: \<open>fit\<close> deep-copies the caller's container before anything else and works
  on the copy. Whatever the solver does and whether \<open>fit\<close> returns or raises, every
  instance and every container that existed when \<open>fit\<close> was called is afterwards as it
  was: both stores are extended, never overwritten. On success \<open>fit\<close> returns the
  address of a new container, whose instances are all new; that container is the
  validated deep copy of the caller's, the solver has returned a final vector \<open>p\<close> with
  a covariance, and the returned store is the result of unpacking \<open>p\<close> into the copy.
  When the caller's container is well formed and its fitted values are all scalar,
  packing the returned container yields \<open>p\<close>, cut to the length of the initial vector:
  the fitted parameters of the result hold the solver's values.
\<close>

theorem fit_leaves_caller_untouched:
  "case fit ord leastsq cs m c h0 g0 of
     (r, h, g) \<Rightarrow>
       take (length h0) h = h0 \<and> take (length g0) g = g0 \<and>
       (case r of
          Inl e \<Rightarrow> True
        | Inr c' \<Rightarrow>
            c' = length g0 \<and> length g = Suc (length g0) \<and>
            list_all (\<lambda>(k, a). length h0 \<le> a) (items (g ! c')) \<and>
            (\<exists>h1 g1 p0 p cov h2.
               deepcopy ord c h0 g0 = (c', h1, g1) \<and> validate (g1 ! c') h1 = Inr (g ! c') \<and>
               pack (g ! c') h1 = Inr p0 \<and>
               run_solver (leastsq p0) (\<lambda>q. compute_error q cs (g ! c') m) h1
                 = (Inr (p, Some cov), h2) \<and>
               unpack (g ! c') p h2 = (Inr (), h) \<and>
               (wf_params (g0 ! c) h0 \<and> permutes ord (map fst (items (g0 ! c))) \<and>
                list_all (\<lambda>q. \<not> is_list (value q)) (fitted_instances (g0 ! c) h0)
                  \<longrightarrow> pack (g ! c') h = Inr (take (length p0) p))))"
proof -
  obtain c1 h1 g1 where dc: "deepcopy ord c h0 g0 = (c1, h1, g1)" by (cases "deepcopy ord c h0 g0")
  obtain r h g where ft: "fit ord leastsq cs m c h0 g0 = (r, h, g)"
    by (cases "fit ord leastsq cs m c h0 g0")
  note fresh = deepcopy_fresh [OF dc]
  note fr = fit_frame [OF dc ft]
  let ?W = "written (items (g1 ! c1)) (fitted_keys (g1 ! c1) h1)"
  have W: "\<forall>a \<in> ?W. length h0 \<le> a"
    using fresh(3) written_subset [of "items (g1 ! c1)" "fitted_keys (g1 ! c1) h1"] by blast
  have "take (length h0) h = take (length h0) h1"
    using frame_take [OF fr(1) W] .
  then have old: "take (length h0) h = h0" using fresh(4) by simp
  from fr(2) obtain ps where g: "g = g0 @ [ps]" by blast
  then have oldg: "take (length g0) g = g0" and leng: "length g = Suc (length g0)" by simp_all
  have succ: "c' = length g0 \<and> length g = Suc (length g0) \<and>
            list_all (\<lambda>(k, a). length h0 \<le> a) (items (g ! c')) \<and>
            (\<exists>h1 g1 p0 p cov h2.
               deepcopy ord c h0 g0 = (c', h1, g1) \<and> validate (g1 ! c') h1 = Inr (g ! c') \<and>
               pack (g ! c') h1 = Inr p0 \<and>
               run_solver (leastsq p0) (\<lambda>q. compute_error q cs (g ! c') m) h1
                 = (Inr (p, Some cov), h2) \<and>
               unpack (g ! c') p h2 = (Inr (), h) \<and>
               (wf_params (g0 ! c) h0 \<and> permutes ord (map fst (items (g0 ! c))) \<and>
                list_all (\<lambda>q. \<not> is_list (value q)) (fitted_instances (g0 ! c) h0)
                  \<longrightarrow> pack (g ! c') h = Inr (take (length p0) p)))"
    if r: "r = Inr c'" for c'
  proof -
    from fr(3) [OF r] have c': "c' = c1" and v: "validate (g1 ! c1) h1 = Inr (g ! c1)" by simp_all
    from fr(4) [OF r] obtain p0 p cov h2 where pk: "pack (g ! c1) h1 = Inr p0"
      and rs: "run_solver (leastsq p0) (\<lambda>q. compute_error q cs (g ! c1) m) h1 = (Inr (p, Some cov), h2)"
      and un: "unpack (g ! c1) p h2 = (Inr (), h)"
      by blast
    have "items (g ! c1) = items (g1 ! c1)" using v by (rule validate_fitted(2))
    with fresh(3) have new: "list_all (\<lambda>(k, a). length h0 \<le> a) (items (g ! c1))"
      by (auto simp: list_all_iff)
    have vals: "pack (g ! c1) h = Inr (take (length p0) p)"
      if wf: "wf_params (g0 ! c) h0" and pm: "permutes ord (map fst (items (g0 ! c)))"
        and sc: "list_all (\<lambda>q. \<not> is_list (value q)) (fitted_instances (g0 ! c) h0)"
    proof -
      note wf1 = deepcopy_preserves_wf [OF wf pm dc]
      have sc1: "list_all (\<lambda>q. \<not> is_list (value q)) (fitted_instances (g1 ! c1) h1)"
        using sc fitted_instances_copy_subset [OF wf dc] by (auto simp: list_all_iff)
      have "p0 = concat (map (\<lambda>q. flat (value q)) (fitted_instances (g1 ! c1) h1))"
        using pack_validated [OF wf1 v] pk by simp
      then have len: "length p0 = length (fitted_instances (g1 ! c1) h1)"
        using length_concat_scalars [OF sc1] by simp
      have "frame (targets (g ! c1)) h1 h2"
        using run_solver_frame [OF _ rs, of "targets (g ! c1)"] compute_error_frame [of _ cs "g ! c1" m]
        by simp
      then have "length h2 = length h1" by (simp add: frame_def)
      from pack_after_unpack [OF wf1 v this un] len show ?thesis by simp
    qed
    from c' fresh(1) leng new dc v pk rs un vals show ?thesis by blast
  qed
  from old oldg succ ft show ?thesis by (cases r) simp_all
qed

theorem fit_leaves_caller_untouched_witness:
  "fit cpython2_order line_solver [line_curve] line_model 0 line_store [line_params]
     = (Inr 1, line_fitted_store, [line_params, line_fitted]) \<and>
   take (length line_store) line_fitted_store = line_store \<and>
   take (length [line_params]) [line_params, line_fitted] = [line_params] \<and>
   wf_params ([line_params] ! 0) line_store \<and>
   permutes cpython2_order (map fst (items ([line_params] ! 0))) \<and>
   list_all (\<lambda>q. \<not> is_list (value q)) (fitted_instances ([line_params] ! 0) line_store) \<and>
   pack ([line_params, line_fitted] ! 1) line_fitted_store = Inr [2] \<and>
   value (line_store ! 0) = Scalar 1 \<and> value (line_fitted_store ! 2) = Scalar 2"
proof -
  have wf: "wf_params ([line_params] ! 0) line_store" using line_wf by simp
  have pm: "permutes cpython2_order (map fst (items ([line_params] ! 0)))"
    by (simp add: permutes_def line_params_def order_ab)
  have sc: "list_all (\<lambda>q. \<not> is_list (value q)) (fitted_instances ([line_params] ! 0) line_store)"
    by (simp add: fitted_instances_def line_params_def line_store_def)
  have vs: "value (line_store ! 0) = Scalar 1" "value (line_fitted_store ! 2) = Scalar 2"
    by (simp_all add: line_fitted_store_def line_store_def)
  from fit_leaves_caller_untouched [where ord = cpython2_order and leastsq = line_solver
      and cs = "[line_curve]" and m = line_model and c = 0 and ?h0.0 = line_store
      and ?g0.0 = "[line_params]"]
  have old: "take (length line_store) line_fitted_store = line_store"
    "take (length [line_params]) [line_params, line_fitted] = [line_params]"
    and ex: "\<exists>h1 g1 p0 p cov h2.
       deepcopy cpython2_order 0 line_store [line_params] = (1, h1, g1) \<and>
       validate (g1 ! 1) h1 = Inr line_fitted \<and> pack line_fitted h1 = Inr p0 \<and>
       run_solver (line_solver p0) (\<lambda>q. compute_error q [line_curve] line_fitted line_model) h1
         = (Inr (p, Some cov), h2) \<and>
       unpack line_fitted p h2 = (Inr (), line_fitted_store) \<and>
       pack line_fitted line_fitted_store = Inr (take (length p0) p)"
    using wf pm sc by (simp_all add: line_fit)
  from ex obtain h1 g1 p0 p cov h2 where
      "deepcopy cpython2_order 0 line_store [line_params] = (1, h1, g1)"
      "pack line_fitted h1 = Inr p0"
      "run_solver (line_solver p0) (\<lambda>q. compute_error q [line_curve] line_fitted line_model) h1
         = (Inr (p, Some cov), h2)"
      "pack line_fitted line_fitted_store = Inr (take (length p0) p)"
    by blast
  then have "pack line_fitted line_fitted_store = Inr [2]"
    by (auto simp: line_deepcopy line_copy_pack line_run)
  with line_fit old wf pm sc vs show ?thesis by simp
qed


section \<open>The residual function\<close>

lemma broadcast_residual:
  assumes "length pred = length obs" and "length vs = length obs"
  shows "np_broadcast (-) obs pred = Inr (map2 (-) obs pred)"
    and "np_broadcast (/) (map2 (-) obs pred) (map (\<lambda>v. v ^ 2) vs) = Inr (weighted_residual obs pred vs)"
proof -
  show "np_broadcast (-) obs pred = Inr (map2 (-) obs pred)"
    using assms by (simp add: np_broadcast_def)
  have "map2 (/) (map2 (-) obs pred) (map (\<lambda>v. v ^ 2) vs) = weighted_residual obs pred vs"
    using assms by (intro nth_equalityI) (simp_all add: weighted_residual_def)
  then show "np_broadcast (/) (map2 (-) obs pred) (map (\<lambda>v. v ^ 2) vs) = Inr (weighted_residual obs pred vs)"
    using assms by (simp add: np_broadcast_def)
qed

lemma compute_error_loop_residuals:
  assumes "\<forall>(i, c) \<in> set ics. curve_params ps i h = Inr (cps i) \<and> call m (cps i) (lag c) = Inr (pred i) \<and>
             length (pred i) = length (G c) \<and> length (var c) = length (G c)"
  shows "compute_error_loop ics ps m h err
           = Inr (err @ concat (map (\<lambda>(i, c). weighted_residual (G c) (pred i) (var c)) ics))"
  using assms
proof (induction ics arbitrary: err)
  case Nil
  then show ?case by simp
next
  case (Cons ic ics)
  obtain i c where ic: "ic = (i, c)" by (cases ic)
  from Cons.prems ic have cp: "curve_params ps i h = Inr (cps i)"
    and cl: "call m (cps i) (lag c) = Inr (pred i)"
    and l1: "length (pred i) = length (G c)" and l2: "length (var c) = length (G c)"
    by simp_all
  have rest: "\<forall>(i, c) \<in> set ics. curve_params ps i h = Inr (cps i) \<and> call m (cps i) (lag c) = Inr (pred i) \<and>
             length (pred i) = length (G c) \<and> length (var c) = length (G c)"
    using Cons.prems by simp
  show ?case
    using ic cp cl broadcast_residual [OF l1 l2] Cons.IH [OF rest] by simp
qed

text \<open>
  Claim C8: the residual function unpacks the trial vector and then, for each curve \<open>i\<close>
  in order, takes the parameters \<open>curve_params(i)\<close>, evaluates the model on the curve's
  lags, subtracts the prediction from the observed \<open>G\<close> point by point and divides by the
  squared \<open>var\<close>; the result is the concatenation of these vectors in curve order. This
  is stated for runs in which unpacking and \<open>curve_params\<close> return and the model returns,
  for each curve, as many values as the curve has observations and variances.
\<close>

theorem compute_error_residuals:
  assumes "unpack ps p h = (Inr u, h')"
    and "\<forall>i < length cs. curve_params ps i h' = Inr (cps i) \<and>
            call m (cps i) (lag (cs ! i)) = Inr (pred i) \<and>
            length (pred i) = length (G (cs ! i)) \<and> length (var (cs ! i)) = length (G (cs ! i))"
  shows "compute_error p cs ps m h
           = (Inr (concat (map (\<lambda>(i, c). weighted_residual (G c) (pred i) (var c)) (enumerate 0 cs))), h')"
proof -
  have "\<forall>(i, c) \<in> set (enumerate 0 cs). curve_params ps i h' = Inr (cps i) \<and>
          call m (cps i) (lag c) = Inr (pred i) \<and>
          length (pred i) = length (G c) \<and> length (var c) = length (G c)"
    using assms(2) by (auto simp: in_set_enumerate_eq)
  from compute_error_loop_residuals [OF this, of "[]"] assms(1) show ?thesis
    by (simp add: compute_error_def)
qed

theorem compute_error_residuals_witness:
  "fst (unpack shared_valid [2, 3, 4] shared_store) = Inr () \<and>
   fst (compute_error [2, 3, 4] [curve1, curve2] shared_valid shared_model shared_store)
     = Inr (weighted_residual [5, 7] [5, 7] [1, 2] @ weighted_residual [6, 8] [5, 7] [1, 1]) \<and>
   weighted_residual [5, 7] [5, 7] [1, 2] @ weighted_residual [6, 8] [5, 7] [1, 1] = [0, 0, 1, 1]"
proof -
  let ?h' = "snd (unpack shared_valid [2, 3, 4] shared_store)"
  have u: "fst (unpack shared_valid [2, 3, 4] shared_store) = Inr ()"
    by (simp add: unpack_def shared_valid_def shared_params_def shared_store_def
          isinstance_list_obj_def set_value_def)
  then have u': "unpack shared_valid [2, 3, 4] shared_store = (Inr (), ?h')"
    by (metis prod.collapse)
  have cp: "curve_params shared_valid i ?h' = Inr [(''k'', 2), (''b'', 0), (''d'', 3)]" for i
    by (simp add: curve_params_def unpack_def shared_valid_def shared_params_def shared_store_def
          isinstance_list_obj_def set_value_def)
  have cl: "call shared_model [(''k'', 2), (''b'', 0), (''d'', 3)] [1, 2] = Inr [5, 7]"
    by (simp add: shared_model_def)
  have hyp: "\<forall>i < length [curve1, curve2].
      curve_params shared_valid i ?h' = Inr ((\<lambda>i. [(''k'', 2), (''b'', 0), (''d'', 3)]) i) \<and>
      call shared_model ((\<lambda>i. [(''k'', 2), (''b'', 0), (''d'', 3)]) i) (lag ([curve1, curve2] ! i))
        = Inr ((\<lambda>i. [5, 7]) i) \<and>
      length ((\<lambda>i. [5, 7 :: real]) i) = length (G ([curve1, curve2] ! i)) \<and>
      length (var ([curve1, curve2] ! i)) = length (G ([curve1, curve2] ! i))"
    using cp cl by (auto simp: less_Suc_eq curve1_def curve2_def)
  from compute_error_residuals [OF u' hyp]
  have "fst (compute_error [2, 3, 4] [curve1, curve2] shared_valid shared_model shared_store)
     = Inr (weighted_residual [5, 7] [5, 7] [1, 2] @ weighted_residual [6, 8] [5, 7] [1, 1])"
    by (simp add: enumerate_eq_zip curve1_def curve2_def)
  moreover have "weighted_residual [5, 7] [5, 7] [1, 2] @ weighted_residual [6, 8] [5, 7] [1, 1] = [0, 0, 1, (1::real)]"
    by (simp add: weighted_residual_def)
  ultimately show ?thesis using u by simp
qed


section \<open>When the fit driver raises\<close>

lemma length_concat_ge:
  assumes "list_all (\<lambda>p. shaped n (value p)) ps" and "0 < n"
  shows "length ps \<le> length (concat (map (\<lambda>p. flat (value p)) ps))"
  using assms
proof (induction ps)
  case Nil
  then show ?case by simp
next
  case (Cons p ps)
  then show ?case by (cases "value p") (auto simp: shaped_def)
qed

text \<open>
  Claim C7, as stated: \<open>fit\<close> raises only if the solver reports no covariance. For a
  container with a parameter whose scope is neither \<open>fitted\<close> nor \<open>fixed\<close>, \<open>fit\<close> raises
  the error of \<open>validate\<close>, although the solver it is given reports a covariance on
  every run.
\<close>

theorem fit_invalid_scope_counterexample:
  "fst (fit cpython2_order reporting_solver [line_curve] unscoped_model 0 unscoped_store [unscoped_params])
     = Inl (RuntimeError ''Invalid scope'')"
  by (simp add: fit_def deepcopy_def validate_obj_def unscoped_params_def unscoped_store_def
        in_order_def order_a List.map_filter_simps)

text \<open>
  Claim C7, amended: let the caller's container be well formed with at least one curve
  and per-curve values of one entry per curve, let the interpreter's iteration order
  visit each of its keys once, let validation and packing of the copy succeed, and let
  the solver run end by returning a final vector, as long as the initial one, and a
  covariance marker. Then \<open>fit\<close> raises if and only if the marker is \<open>None\<close>, the
  exception being \<open>RuntimeError('Fit failed to converge (flat axis)')\<close>; otherwise it
  unpacks the final vector into the copy and returns the copy.
\<close>

theorem fit_raises_iff_no_covariance:
  assumes wf: "wf_params (g0 ! c) h0" and pm: "permutes ord (map fst (items (g0 ! c)))"
    and n: "curves (g0 ! c) \<noteq> []"
    and sh: "list_all (\<lambda>p. shaped (length (curves (g0 ! c))) (value p)) (fitted_instances (g0 ! c) h0)"
    and dc: "deepcopy ord c h0 g0 = (c1, h1, g1)" and v: "validate (g1 ! c1) h1 = Inr ps"
    and pk: "pack ps h1 = Inr p0"
    and rs: "run_solver (leastsq p0) (\<lambda>p. compute_error p cs ps m) h1 = (Inr (p, cov_x), h2)"
    and len: "length p = length p0"
  shows "((\<exists>e. fst (fit ord leastsq cs m c h0 g0) = Inl e) \<longleftrightarrow> cov_x = None) \<and>
         (cov_x = None \<longrightarrow>
            fit ord leastsq cs m c h0 g0
              = (Inl (RuntimeError ''Fit failed to converge (flat axis)''), h2, g0 @ [ps])) \<and>
         (cov_x \<noteq> None \<longrightarrow>
            fit ord leastsq cs m c h0 g0 = (Inr c1, snd (unpack ps p h2), g0 @ [ps]))"
proof -
  note wf1 = deepcopy_preserves_wf [OF wf pm dc]
  define ks where "ks = fitted_keys (g1 ! c1) h1"
  note ks = validated_keys(1,2,3,4) [OF wf1 v, folded ks_def]
  have sh1: "list_all (\<lambda>p. shaped (length (curves (g0 ! c))) (value p)) (fitted_instances (g1 ! c1) h1)"
    using sh fitted_instances_copy_subset [OF wf dc] by (auto simp: list_all_iff)
  have "p0 = concat (map (\<lambda>p. flat (value p)) (fitted_instances (g1 ! c1) h1))"
    using pack_validated [OF wf1 v] pk by simp
  then have "length ks \<le> length p0"
    using length_concat_ge [OF sh1] n ks(4) by simp
  then have "length ks \<le> length p" using len by simp
  then have "fst (unpack ps p h2) = Inr ()"
    using unpack_loop_result [OF ks(3), of 0 p "length (curves ps)" h2]
    by (simp add: unpack_def ks(1,2))
  then have u: "unpack ps p h2 = (Inr (), snd (unpack ps p h2))"
    by (metis prod.collapse)
  note ft = fit_validated [OF dc v, of leastsq cs m]
  show ?thesis
  proof (cases "cov_x = None")
    case True
    with ft pk rs show ?thesis by simp
  next
    case False
    have "fit ord leastsq cs m c h0 g0 = (Inr c1, snd (unpack ps p h2), g0 @ [ps])"
      using ft pk rs False u by (auto split: prod.splits sum.splits)
    with False show ?thesis by simp
  qed
qed

theorem fit_raises_iff_no_covariance_witness:
  "wf_params ([shared_params] ! 0) shared_store \<and>
   permutes cpython2_order (map fst (items ([shared_params] ! 0))) \<and>
   curves ([shared_params] ! 0) \<noteq> [] \<and>
   list_all (\<lambda>p. shaped (length (curves ([shared_params] ! 0))) (value p))
     (fitted_instances ([shared_params] ! 0) shared_store) \<and>
   deepcopy cpython2_order 0 shared_store [shared_params]
     = (1, shared_copy_store, [shared_params, shared_copy]) \<and>
   validate ([shared_params, shared_copy] ! 1) shared_copy_store = Inr shared_fitted \<and>
   pack shared_fitted shared_copy_store = Inr [1, 3, 4] \<and>
   fst (run_solver (shared_solver [1, 3, 4])
          (\<lambda>p. compute_error p [curve1, curve2] shared_fitted shared_model)
          shared_copy_store) = Inr ([2, 3, 4], Some [[1]]) \<and>
   length [2, 3, 4 :: real] = length [1, 3, 4 :: real] \<and>
   fst (fit cpython2_order shared_solver [curve1, curve2] shared_model 0 shared_store [shared_params])
     = Inr 1"
proof -
  let ?run = "run_solver (shared_solver [1, 3, 4])
          (\<lambda>p. compute_error p [curve1, curve2] shared_fitted shared_model) shared_copy_store"
  have wf: "wf_params ([shared_params] ! 0) shared_store" using shared_wf by simp
  have pm: "permutes cpython2_order (map fst (items ([shared_params] ! 0)))"
    by (simp add: permutes_def shared_params_def order_kbd)
  have n: "curves ([shared_params] ! 0) \<noteq> []" by (simp add: shared_params_def)
  have sh: "list_all (\<lambda>p. shaped (length (curves ([shared_params] ! 0))) (value p))
              (fitted_instances ([shared_params] ! 0) shared_store)"
    by (simp add: fitted_instances_def shared_params_def shared_store_def shaped_def)
  have v: "validate ([shared_params, shared_copy] ! 1) shared_copy_store = Inr shared_fitted"
    using shared_copy_validate by simp
  have r: "fst ?run = Inr ([2, 3, 4], Some [[1]])" by (simp add: shared_run)
  then have rs: "?run = (Inr ([2, 3, 4], Some [[1]]), snd ?run)"
    by (metis prod.collapse)
  have len: "length [2, 3, 4 :: real] = length [1, 3, 4 :: real]" by simp
  from fit_raises_iff_no_covariance [where leastsq = shared_solver and cs = "[curve1, curve2]"
      and m = shared_model, OF wf pm n sh shared_deepcopy v shared_copy_pack rs len]
  have "fst (fit cpython2_order shared_solver [curve1, curve2] shared_model 0 shared_store [shared_params])
          = Inr 1"
    by simp
  with wf pm n sh shared_deepcopy v shared_copy_pack r show ?thesis
    by simp
qed


section \<open>Containers without per-curve values\<close>

text \<open>
  Where no per-curve value is involved the codec and \<open>curve_params\<close> behave as
  intended: unpacking the packed vector changes nothing in the store, and
  \<open>curve_params\<close> returns one number for every key of the dictionary, in order.
\<close>

lemma set_value_same:
  assumes "a < length h" and "value (h ! a) = v"
  shows "set_value a v h = h"
  using assms by (simp add: set_value_def list_update_same_conv)

lemma unpack_loop_same:
  assumes "\<forall>k \<in> set ks. \<exists>a. map_of d k = Some a \<and> a < length h"
    and "map (\<lambda>k. value (h ! the (map_of d k))) ks = map Scalar (take (length ks) (drop i packed))"
    and "i + length ks \<le> length packed"
  shows "unpack_loop n packed d ks i h = (Inr (), h)"
  using assms
proof (induction ks arbitrary: i)
  case Nil
  then show ?case by simp
next
  case (Cons k ks)
  from Cons.prems(1) obtain a where a: "map_of d k = Some a" "a < length h" by auto
  from Cons.prems(3) have i: "i < length packed" by simp
  then have dr: "drop i packed = packed ! i # drop (Suc i) packed"
    by (simp add: Cons_nth_drop_Suc)
  from Cons.prems(2) a(1) dr have v: "value (h ! a) = Scalar (packed ! i)"
    and rest: "map (\<lambda>k. value (h ! the (map_of d k))) ks = map Scalar (take (length ks) (drop (i + 1) packed))"
    by simp_all
  have keys: "\<forall>k \<in> set ks. \<exists>a. map_of d k = Some a \<and> a < length h"
    using Cons.prems(1) by simp
  have len: "(i + 1) + length ks \<le> length packed" using Cons.prems(3) by simp
  from Cons.IH [OF keys rest len] a i set_value_same [OF a(2) v] show ?case
    by (simp add: isinstance_list_obj_def)
qed

lemma concat_flat_scalars:
  assumes "list_all (\<lambda>p. \<not> is_list (value p)) ps"
  shows "map Scalar (concat (map (\<lambda>p. flat (value p)) ps)) = map value ps"
  using assms
proof (induction ps)
  case Nil
  then show ?case by simp
next
  case (Cons p ps)
  then show ?case by (cases "value p") auto
qed

lemma unpack_pack_scalar:
  assumes "wf_params self h" and "validate self h = Inr self'"
    and "list_all (\<lambda>p. \<not> is_list (value p)) (fitted_instances self h)"
    and "pack self' h = Inr v"
  shows "unpack self' v h = (Inr (), h)"
proof -
  define ks where "ks = fitted_keys self h"
  note ks = validated_keys [OF assms(1,2), folded ks_def]
  have v: "v = concat (map (\<lambda>p. flat (value p)) (fitted_instances self h))"
    using pack_validated [OF assms(1,2)] assms(4) by simp
  then have len: "length v = length ks"
    using length_concat_scalars [OF assms(3)] ks(4) by simp
  have keys: "\<forall>k \<in> set ks. \<exists>a. map_of (items self) k = Some a \<and> a < length h"
  proof
    fix k assume "k \<in> set ks"
    with ks(3) obtain a where a: "map_of (items self) k = Some a" by auto
    then have "(k, a) \<in> set (items self)" by (rule map_of_SomeD)
    from wf_lookup(3) [OF assms(1) this] a show "\<exists>a. map_of (items self) k = Some a \<and> a < length h"
      by simp
  qed
  have "map (\<lambda>k. value (h ! the (map_of (items self) k))) ks
          = map value (map (\<lambda>k. h ! the (map_of (items self) k)) ks)"
    by simp
  also have "\<dots> = map value (fitted_instances self h)" by (simp only: ks(5))
  also have "\<dots> = map Scalar v" using concat_flat_scalars [OF assms(3)] v by simp
  finally have vals: "map (\<lambda>k. value (h ! the (map_of (items self) k))) ks
          = map Scalar (take (length ks) (drop 0 v))"
    using len by simp
  from unpack_loop_same [OF keys vals] len show ?thesis
    by (simp add: unpack_def ks(1,2))
qed

lemma curve_params_loop_scalar:
  assumes "\<forall>k \<in> set ks. \<exists>a. map_of d k = Some a \<and> \<not> is_list (value (h ! a))"
    and "distinct (map fst acc @ ks)"
  shows "curve_params_loop h d ks acc
           = Inr (acc @ map (\<lambda>k. (k, scalar_of (value (h ! the (map_of d k))))) ks)"
  using assms
proof (induction ks arbitrary: acc)
  case Nil
  then show ?case by simp
next
  case (Cons k ks)
  from Cons.prems(1) obtain a where a: "map_of d k = Some a" "\<not> is_list (value (h ! a))" by auto
  then obtain x where x: "value (h ! a) = Scalar x" by (cases "value (h ! a)") auto
  have fresh: "k \<notin> fst ` set acc" using Cons.prems(2) by auto
  have keys: "\<forall>k \<in> set ks. \<exists>a. map_of d k = Some a \<and> \<not> is_list (value (h ! a))"
    using Cons.prems(1) by simp
  have d: "distinct (map fst (acc @ [(k, x)]) @ ks)" using Cons.prems(2) by auto
  from Cons.IH [OF keys d] a(1) x show ?case
    by (simp add: update_fresh_key [OF fresh])
qed

lemma curve_params_scalar:
  assumes "wf_params self h"
    and "list_all (\<lambda>(k, a). \<not> is_list (value (h ! a))) (items self)"
  shows "curve_params self i h = Inr (map (\<lambda>(k, a). (k, scalar_of (value (h ! a)))) (items self))"
proof -
  have keys: "\<forall>k \<in> set (map fst (items self)). \<exists>a. map_of (items self) k = Some a \<and> \<not> is_list (value (h ! a))"
  proof
    fix k assume "k \<in> set (map fst (items self))"
    then obtain a where ka: "(k, a) \<in> set (items self)" by auto
    with assms(2) have "\<not> is_list (value (h ! a))" by (auto simp: list_all_iff)
    with wf_lookup(1) [OF assms(1) ka] show "\<exists>a. map_of (items self) k = Some a \<and> \<not> is_list (value (h ! a))"
      by simp
  qed
  have d: "distinct (map fst [] @ map fst (items self))"
    using assms(1) by (simp add: wf_params_def)
  have "map (\<lambda>k. (k, scalar_of (value (h ! the (map_of (items self) k))))) (map fst (items self))
          = map (\<lambda>(k, a). (k, scalar_of (value (h ! a)))) (items self)"
    using wf_lookup(1) [OF assms(1)] by (auto simp: case_prod_beta)
  with curve_params_loop_scalar [OF keys d] show ?thesis
    by (simp add: curve_params_def)
qed

end
